theory Spec2Isabelle
  imports Complex_Main
begin

section \<open>The hash router of \<^verbatim>\<open>src/router.js\<close>\<close>

text \<open>
  The development follows \<^verbatim>\<open>src/router.js\<close> from top to bottom: the parameter
  utilities, the route object built from the address, then the mutable state of the module
  closure with the functions that act on it.

  JavaScript strings are modelled as \<^typ>\<open>string\<close>. Only ASCII characters are inspected
  by the code (\<^verbatim>\<open>#\<close>, \<^verbatim>\<open>!\<close>, \<^verbatim>\<open>/\<close>, \<^verbatim>\<open>?\<close>, digits, white space);
  everything else is carried along unread.
\<close>

subsection \<open>Values and the built-in \<^verbatim>\<open>Number\<close>\<close>

text \<open>
  A JavaScript number is modelled by the exact value of the literal it was read from (a
  rational) or one of the two infinities; the rounding to a binary64 float and the sign of
  zero are not modelled. \<^verbatim>\<open>NaN\<close> is the absence of a number.
\<close>

datatype js_number = Finite rat | PosInfinity | NegInfinity

datatype js_value =
    JBool bool
  | JNull
  | JUndefined
  | JNumber js_number
  | JString string

definition is_ws :: "char \<Rightarrow> bool" where
  \<comment> \<open>tab, line feed, vertical tab, form feed, carriage return, space\<close>
  "is_ws c = (c \<in> set [CHR 0x09, CHR 0x0A, CHR 0x0B, CHR 0x0C, CHR 0x0D, CHR '' ''])"

definition trim :: "string \<Rightarrow> string" where
  \<comment> \<open>\<^verbatim>\<open>String.prototype.trim\<close>\<close>
  "trim s = rev (dropWhile is_ws (rev (dropWhile is_ws s)))"

definition digit_of :: "nat \<Rightarrow> char \<Rightarrow> nat option" where
  \<comment> \<open>the value of a digit in the given radix (2, 8, 10 or 16)\<close>
  "digit_of radix c =
     (let n = (of_char c :: nat);
          v = (if 48 \<le> n \<and> n \<le> 57 then Some (n - 48)
               else if 97 \<le> n \<and> n \<le> 102 then Some (n - 87)
               else if 65 \<le> n \<and> n \<le> 70 then Some (n - 55)
               else None)
      in case v of None \<Rightarrow> None | Some d \<Rightarrow> if d < radix then Some d else None)"

fun digits_value :: "nat \<Rightarrow> nat \<Rightarrow> string \<Rightarrow> nat option" where
  \<comment> \<open>the value of a run of digits, most significant first; \<open>None\<close> on a foreign character\<close>
  "digits_value radix acc [] = Some acc"
| "digits_value radix acc (c # cs) =
     (case digit_of radix c of
        None \<Rightarrow> None
      | Some d \<Rightarrow> digits_value radix (acc * radix + d) cs)"

definition nonempty_digits :: "nat \<Rightarrow> string \<Rightarrow> nat option" where
  "nonempty_digits radix s = (if s = [] then None else digits_value radix 0 s)"

definition is_decimal_digit :: "char \<Rightarrow> bool" where
  "is_decimal_digit c = (digit_of 10 c \<noteq> None)"

definition exponent_part :: "string \<Rightarrow> int option" where
  \<comment> \<open>an optional \<^verbatim>\<open>e\<close> or \<^verbatim>\<open>E\<close>, an optional sign, digits; no exponent is \<open>0\<close>\<close>
  "exponent_part s =
     (case s of
        [] \<Rightarrow> Some 0
      | c # r \<Rightarrow>
          if c = CHR ''e'' \<or> c = CHR ''E'' then
            (case r of
               [] \<Rightarrow> None
             | d # r' \<Rightarrow>
                 if d = CHR ''-'' then map_option (\<lambda>n. - int n) (nonempty_digits 10 r')
                 else if d = CHR ''+'' then map_option int (nonempty_digits 10 r')
                 else map_option int (nonempty_digits 10 r))
          else None)"

definition scale10 :: "nat \<Rightarrow> int \<Rightarrow> rat" where
  "scale10 m e = (if 0 \<le> e then of_nat m * 10 ^ nat e else of_nat m / 10 ^ nat (- e))"

definition unsigned_decimal :: "string \<Rightarrow> js_number option" where
  \<comment> \<open>\<^verbatim>\<open>Infinity\<close>, \<^verbatim>\<open>12\<close>, \<^verbatim>\<open>12.\<close>, \<^verbatim>\<open>12.5\<close>, \<^verbatim>\<open>.5\<close>, each but the first with an optional exponent\<close>
  "unsigned_decimal s =
     (if s = ''Infinity'' then Some PosInfinity
      else
        let ip = takeWhile is_decimal_digit s;
            r1 = dropWhile is_decimal_digit s;
            has_dot = (r1 \<noteq> [] \<and> hd r1 = CHR ''.'');
            fp = (if has_dot then takeWhile is_decimal_digit (tl r1) else []);
            r2 = (if has_dot then dropWhile is_decimal_digit (tl r1) else r1)
        in if ip = [] \<and> fp = [] then None
           else
             (case (digits_value 10 0 (ip @ fp), exponent_part r2) of
                (Some m, Some e) \<Rightarrow> Some (Finite (scale10 m (e - int (length fp))))
              | _ \<Rightarrow> None))"

definition negate :: "js_number \<Rightarrow> js_number" where
  "negate n = (case n of Finite q \<Rightarrow> Finite (- q) | PosInfinity \<Rightarrow> NegInfinity
               | NegInfinity \<Rightarrow> PosInfinity)"

definition non_decimal :: "string \<Rightarrow> js_number option" where
  \<comment> \<open>\<^verbatim>\<open>0x1F\<close>, \<^verbatim>\<open>0o17\<close>, \<^verbatim>\<open>0b101\<close>, with either case of the prefix letter and no sign\<close>
  "non_decimal s =
     (case s of
        z # p # ds \<Rightarrow>
          if z \<noteq> CHR ''0'' then None
          else
            let radix = (if p = CHR ''x'' \<or> p = CHR ''X'' then 16
                         else if p = CHR ''o'' \<or> p = CHR ''O'' then 8
                         else if p = CHR ''b'' \<or> p = CHR ''B'' then 2 else (0::nat))
            in if radix = 0 then None
               else map_option (\<lambda>n. Finite (of_nat n)) (nonempty_digits radix ds)
      | _ \<Rightarrow> None)"

definition Number :: "string \<Rightarrow> js_number option" where
  \<comment> \<open>the built-in \<^verbatim>\<open>Number(value)\<close> on a string; \<open>None\<close> is \<^verbatim>\<open>NaN\<close>\<close>
  "Number value =
     (let t = trim value in
      if t = [] then Some (Finite 0)
      else
        (case non_decimal t of
           Some n \<Rightarrow> Some n
         | None \<Rightarrow>
             if hd t = CHR ''-'' then map_option negate (unsigned_decimal (tl t))
             else if hd t = CHR ''+'' then unsigned_decimal (tl t)
             else unsigned_decimal t))"

subsection \<open>Parameter processing utilities\<close>

datatype error = TypeError

type_synonym params_obj = "(string \<times> string list) list"
type_synonym typed_obj = "(string \<times> js_value list) list"

definition object_prototype_keys :: "string list" where
  \<comment> \<open>the property names every plain object inherits; none of their values is nullish\<close>
  "object_prototype_keys =
     [''constructor'', ''__defineGetter__'', ''__defineSetter__'', ''hasOwnProperty'',
      ''__lookupGetter__'', ''__lookupSetter__'', ''isPrototypeOf'', ''propertyIsEnumerable'',
      ''toString'', ''valueOf'', ''__proto__'', ''toLocaleString'']"

fun push_value :: "string \<Rightarrow> string \<Rightarrow> params_obj \<Rightarrow> params_obj" where
  "push_value k v [] = [(k, [v])]"
| "push_value k v ((k', vs) # out) =
     (if k = k' then (k', vs @ [v]) # out else (k', vs) # push_value k v out)"

fun paramsToObj_loop :: "(string \<times> string) list \<Rightarrow> params_obj \<Rightarrow> error + params_obj" where
  \<comment> \<open>\<^verbatim>\<open>(out[k] ??= []).push(v)\<close>: an inherited property is found instead of a fresh
      array, and it has no \<^verbatim>\<open>push\<close>\<close>
  "paramsToObj_loop [] out = Inr out"
| "paramsToObj_loop ((k, v) # ps) out =
     (if k \<in> fst ` set out then paramsToObj_loop ps (push_value k v out)
      else if k \<in> set object_prototype_keys then Inl TypeError
      else paramsToObj_loop ps (push_value k v out))"

definition paramsToObj :: "(string \<times> string) list \<Rightarrow> error + params_obj" where
  "paramsToObj params = paramsToObj_loop params []"

definition coerceValue :: "string \<Rightarrow> js_value" where
  "coerceValue value =
     (if value = ''true'' then JBool True
      else if value = ''false'' then JBool False
      else if value = ''null'' then JNull
      else if value = ''undefined'' then JUndefined
      else
        (case Number value of
           Some num \<Rightarrow> if trim value \<noteq> [] then JNumber num else JString value
         | None \<Rightarrow> JString value))"

definition coerceParams :: "params_obj \<Rightarrow> typed_obj" where
  "coerceParams params = map (\<lambda>(key, values). (key, map coerceValue values)) params"

subsection \<open>Route object creation\<close>

record route =
  path :: string
  query :: params_obj
  params :: params_obj
  queryTyped :: typed_obj
  paramsTyped :: typed_obj

definition strip_marker :: "string \<Rightarrow> string" where
  \<comment> \<open>\<^verbatim>\<open>hash.replace(/^#!\/?/, '')\<close>\<close>
  "strip_marker h =
     (case h of
        a # b # r \<Rightarrow>
          if a = CHR ''#'' \<and> b = CHR ''!'' then
            (case r of c # r' \<Rightarrow> if c = CHR ''/'' then r' else r | [] \<Rightarrow> r)
          else h
      | _ \<Rightarrow> h)"

fun split_on :: "char \<Rightarrow> string \<Rightarrow> string list" where
  \<comment> \<open>\<^verbatim>\<open>s.split(sep)\<close> for a separator of one character; the result is never empty, so
      the last branch is never taken\<close>
  "split_on sep [] = [[]]"
| "split_on sep (c # cs) =
     (if c = sep then [] # split_on sep cs
      else (case split_on sep cs of p # ps \<Rightarrow> (c # p) # ps | [] \<Rightarrow> [[c]]))"

definition part_or_empty :: "string list \<Rightarrow> nat \<Rightarrow> string" where
  \<comment> \<open>\<^verbatim>\<open>parts[i] || ''\<close>\<close>
  "part_or_empty parts i = (if i < length parts then parts ! i else [])"


subsection \<open>The environment\<close>

text \<open>
  The browser is an external collaborator. The model keeps what the router reads and
  writes: the hash and the search string of the location, the address without its fragment,
  the scroll offsets of the window, the clock, the ids of the elements of the document, and
  the parser behind \<^verbatim>\<open>new URLSearchParams(text)\<close>, which yields the key/value pairs in
  the order of the text.

  A fragment that is written goes through the URL parser: tabs and line breaks are removed
  and the characters of the fragment percent-encode set (controls, space, the double quote,
  \<^verbatim>\<open><\<close>, \<^verbatim>\<open>>\<close>, the backquote and everything beyond ASCII) are replaced by their
  escapes, so the hash that is read back can differ from the text that was written.
\<close>

record env =
  hash :: string
  search :: string
  url_base :: string
  pageXOffset :: int
  pageYOffset :: int
  clock :: int
  element_ids :: "string set"
  urlSearchParams :: "string \<Rightarrow> (string \<times> string) list"

definition getElementById :: "env \<Rightarrow> string \<Rightarrow> bool" where
  \<comment> \<open>whether \<^verbatim>\<open>document?.getElementById?.(id)\<close> is an element; no element has the
      empty id\<close>
  "getElementById e id' = (id' \<noteq> [] \<and> id' \<in> element_ids e)"

definition href :: "env \<Rightarrow> string" where
  "href e = url_base e @ hash e"

definition is_tab_or_newline :: "char \<Rightarrow> bool" where
  "is_tab_or_newline c = (c = CHR 0x09 \<or> c = CHR 0x0A \<or> c = CHR 0x0D)"

definition needs_escape :: "char \<Rightarrow> bool" where
  \<comment> \<open>the fragment percent-encode set\<close>
  "needs_escape c =
     ((of_char c :: nat) \<le> 32 \<or> 127 \<le> (of_char c :: nat) \<or>
      c = CHR 0x22 \<or> c = CHR ''<'' \<or> c = CHR ''>'' \<or> c = CHR 0x60)"

definition hex_digit :: "nat \<Rightarrow> char" where
  "hex_digit n = ''0123456789ABCDEF'' ! (n mod 16)"

definition percent_encode :: "char \<Rightarrow> string" where
  "percent_encode c =
     [CHR ''%'', hex_digit ((of_char c :: nat) div 16), hex_digit ((of_char c :: nat) mod 16)]"

definition encode_fragment :: "string \<Rightarrow> string" where
  "encode_fragment f =
     concat (map (\<lambda>c. if needs_escape c then percent_encode c else [c])
                 (filter (\<lambda>c. \<not> is_tab_or_newline c) f))"

definition fragment_hash :: "string \<Rightarrow> string" where
  \<comment> \<open>what \<^verbatim>\<open>location.hash\<close> reads once the fragment has been set from \<open>v\<close>: one leading
      \<^verbatim>\<open>#\<close> of \<open>v\<close> is dropped, the rest is encoded, and an empty fragment reads as the
      empty string\<close>
  "fragment_hash v =
     (let f = encode_fragment (if v \<noteq> [] \<and> hd v = CHR ''#'' then tl v else v)
      in if f = [] then [] else CHR ''#'' # f)"

definition strip_url :: "string \<Rightarrow> string" where
  \<comment> \<open>the URL parser drops leading and trailing controls and spaces of a whole address\<close>
  "strip_url u =
     rev (dropWhile (\<lambda>c. (of_char c :: nat) \<le> 32)
            (rev (dropWhile (\<lambda>c. (of_char c :: nat) \<le> 32) u)))"

definition url_hash :: "string \<Rightarrow> string" where
  \<comment> \<open>what \<^verbatim>\<open>location.hash\<close> reads once the address is \<open>u\<close>: the fragment starts
      after the first \<^verbatim>\<open>#\<close>\<close>
  "url_hash u =
     (let f = encode_fragment (drop 1 (dropWhile (\<lambda>c. c \<noteq> CHR ''#'') (strip_url u)))
      in if f = [] then [] else CHR ''#'' # f)"

definition makeRoute :: "env \<Rightarrow> error + route" where
  "makeRoute e =
     (let raw = strip_marker (hash e);
          parts = split_on (CHR ''?'') raw;
          path = part_or_empty parts 0;
          hashQuery = part_or_empty parts 1;
          searchParams = urlSearchParams e (drop 1 (search e));
          hashParams = urlSearchParams e hashQuery
      in case paramsToObj searchParams of
           Inl x \<Rightarrow> Inl x
         | Inr q \<Rightarrow>
             (case paramsToObj hashParams of
                Inl x \<Rightarrow> Inl x
              | Inr p \<Rightarrow>
                  Inr \<lparr>path = path, query = q, params = p,
                       queryTyped = coerceParams q, paramsTyped = coerceParams p\<rparr>))"

definition simple_search_params :: "string \<Rightarrow> (string \<times> string) list" where
  \<comment> \<open>\<^verbatim>\<open>URLSearchParams\<close> on a text without \<^verbatim>\<open>+\<close> and \<^verbatim>\<open>%\<close> escapes: the pieces
      between \<^verbatim>\<open>&\<close>, the empty ones skipped, each cut at its first \<^verbatim>\<open>=\<close>\<close>
  "simple_search_params text =
     map (\<lambda>piece. (takeWhile (\<lambda>c. c \<noteq> CHR ''='') piece,
                    drop 1 (dropWhile (\<lambda>c. c \<noteq> CHR ''='') piece)))
         (filter (\<lambda>piece. piece \<noteq> []) (split_on (CHR ''&'') text))"


subsection \<open>State management\<close>

text \<open>
  Route objects live in a store: an address is an index into \<open>heap\<close>, and the variables
  \<^verbatim>\<open>route\<close> and \<^verbatim>\<open>prevRoute\<close> hold addresses, so that \<^verbatim>\<open>{ ...route }\<close> is an
  allocation and a returned copy can be told apart from the object it was copied from. The
  parameter objects inside a route are kept as values.

  A callback is a function object, named here by a reference (a number, which is what
  \<^verbatim>\<open>indexOf\<close> compares); the four registries hold references. What the function
  behind a reference does when it is called is given by a table that every operation takes
  as a parameter. A call maps the state of the router at the moment of the call to the
  state at the moment the call is over, since the callback may itself have called
  operations of the router in between, and to the way the call ends. Every function from
  states to states is admitted here, which is more than a callback can do with the
  interface it holds; what is proved for every table holds for every callback.

  A thrown value is either nullish, or anything else, given by the text that
  \<^verbatim>\<open>${error.message}\<close> renders for it. A before-guard either throws at once, or returns
  a value or a promise; a promise fulfils, never settles, or rejects at some moment.
  Moments are only compared with each other: the smaller one is the earlier, and \<open>0\<close> is
  the moment of a promise that is already rejected when it is returned. The state a guard
  leaves is the one at the moment it settles, and the guards of one navigation are taken to
  act on the router one after the other, in the order of the calls. A scroll observer
  receives the event object and may assign to its fields; it returns the object as it left
  it.

  The \<open>trace\<close> lists, in order, what the router did to the outside: the callbacks it
  called, the console output, the writes to the address, the frames it requested.
\<close>

datatype thrown = Nullish | Fault string

datatype completion = Returns | Throws thrown

datatype settlement = Fulfils | ThrowsSync thrown | Rejects nat thrown | Hangs

datatype 'a promise = Resolved 'a | Rejected error | Pending

datatype status_type = Info | Loading | Success | Error

datatype scroll_type = Capture | Restore | Update

record scroll_data =
  winX :: int
  winY :: int
  timestamp :: int
  sroute :: string

record scroll_event = scroll_data +
  etype :: scroll_type
  custom :: "(string \<times> int) list"

definition event_of :: "scroll_type \<Rightarrow> scroll_data \<Rightarrow> scroll_event" where
  \<comment> \<open>\<^verbatim>\<open>{ type: t, ...scrollData }\<close>\<close>
  "event_of t d =
     \<lparr>winX = winX d, winY = winY d, timestamp = timestamp d, sroute = sroute d,
      etype = t, custom = []\<rparr>"

datatype effect =
    CallBefore nat nat nat
  | CallAfter nat nat nat
  | CallStatus nat string status_type nat nat
  | CallScroll nat scroll_event
  | ConsoleError string thrown
  | SetHash string
  | LocationReplace string
  | RequestAnimationFrame
  | ScrollTo int int
  | ScrollIntoView string
  | HistoryGo int
  | HistoryBack
  | HistoryForward

datatype frame = RestoreFrame scroll_data | AnchorFrame

record state =
  env :: env
  heap :: "route list"
  route :: nat
  prevRoute :: nat
  beforeListeners :: "nat list"
  afterListeners :: "nat list"
  statusCallbacks :: "nat list"
  scrollCallbacks :: "nat list"
  destroyed :: bool
  lastHash :: string
  scrollPositions :: "string \<rightharpoonup> scroll_data"
  hashchange_listener :: bool
  scroll_listener :: bool
  frames :: "frame list"
  trace :: "effect list"

record callbacks =
  guard :: "nat \<Rightarrow> nat \<Rightarrow> nat \<Rightarrow> state \<Rightarrow> settlement \<times> state"
  hook :: "nat \<Rightarrow> nat \<Rightarrow> nat \<Rightarrow> state \<Rightarrow> completion \<times> state"
  status_observer ::
    "nat \<Rightarrow> string \<Rightarrow> status_type \<Rightarrow> nat \<Rightarrow> nat \<Rightarrow> state \<Rightarrow> completion \<times> state"
  scroll_observer :: "nat \<Rightarrow> scroll_event \<Rightarrow> state \<Rightarrow> (scroll_event \<times> completion) \<times> state"

definition current :: "state \<Rightarrow> route" where
  "current s = heap s ! route s"

definition previous :: "state \<Rightarrow> route" where
  "previous s = heap s ! prevRoute s"

definition alloc :: "route \<Rightarrow> state \<Rightarrow> nat \<times> state" where
  "alloc r s = (length (heap s), s\<lparr>heap := heap s @ [r]\<rparr>)"

definition allocated :: "state \<Rightarrow> bool" where
  \<comment> \<open>both variables point at allocated objects\<close>
  "allocated s = (route s < length (heap s) \<and> prevRoute s < length (heap s))"

definition say :: "effect list \<Rightarrow> state \<Rightarrow> state" where
  "say es s = s\<lparr>trace := trace s @ es\<rparr>"

fun for_each :: "(nat \<Rightarrow> 'a \<Rightarrow> 'a) \<Rightarrow> ('a \<Rightarrow> nat list) \<Rightarrow> nat \<Rightarrow> nat \<Rightarrow> 'a \<Rightarrow> 'a" where
  \<comment> \<open>the loop of \<^verbatim>\<open>forEach\<close> and \<^verbatim>\<open>map\<close> from index \<open>k\<close> with \<open>n\<close> indices to go: the
      array is read anew at every index, and an index beyond its end is passed over\<close>
  "for_each body array 0 k x = x"
| "for_each body array (Suc n) k x =
     for_each body array n (Suc k)
       (if k < length (array x) then body (array x ! k) x else x)"

definition forEach :: "(nat \<Rightarrow> 'a \<Rightarrow> 'a) \<Rightarrow> ('a \<Rightarrow> nat list) \<Rightarrow> 'a \<Rightarrow> 'a" where
  \<comment> \<open>\<^verbatim>\<open>array.forEach(body)\<close>: the number of indices is fixed at the start\<close>
  "forEach body array x = for_each body array (length (array x)) 0 x"

subsection \<open>Event system\<close>

definition mark_navigating :: string where
  \<comment> \<open>the glyph before \<^verbatim>\<open>Navigating...\<close>, by its bytes\<close>
  "mark_navigating = [CHR 0xF0, CHR 0x9F, CHR 0x94, CHR 0x84]"

definition mark_complete :: string where
  "mark_complete = [CHR 0xE2, CHR 0x9C, CHR 0x85]"

definition mark_cancelled :: string where
  "mark_cancelled = [CHR 0xE2, CHR 0x9D, CHR 0x8C]"

definition thrown_effects :: "string \<Rightarrow> completion \<Rightarrow> effect list" where
  \<comment> \<open>\<^verbatim>\<open>try { ... } catch (error) { console.error(label, error) }\<close>\<close>
  "thrown_effects label c = (case c of Returns \<Rightarrow> [] | Throws e \<Rightarrow> [ConsoleError label e])"

definition call_status :: "callbacks \<Rightarrow> string \<Rightarrow> status_type \<Rightarrow> nat \<Rightarrow> state \<Rightarrow> state" where
  \<comment> \<open>the body of the loop: \<^verbatim>\<open>callback(status, type, { route, prevRoute })\<close> in its
      \<^verbatim>\<open>try\<close>\<close>
  "call_status cb status ty ref s =
     (let (c, s') = status_observer cb ref status ty (route s) (prevRoute s)
                      (say [CallStatus ref status ty (route s) (prevRoute s)] s)
      in say (thrown_effects ''Status callback error:'' c) s')"

definition emitStatus :: "callbacks \<Rightarrow> string \<Rightarrow> status_type \<Rightarrow> state \<Rightarrow> state" where
  "emitStatus cb status ty s = forEach (call_status cb status ty) statusCallbacks s"

definition call_scroll :: "callbacks \<Rightarrow> nat \<Rightarrow> scroll_event \<times> state \<Rightarrow> scroll_event \<times> state" where
  \<comment> \<open>the body of the loop: every callback receives the same object\<close>
  "call_scroll cb ref x =
     (let ((ev', c), s') = scroll_observer cb ref (fst x) (say [CallScroll ref (fst x)] (snd x))
      in (ev', say (thrown_effects ''Scroll callback error:'' c) s'))"

definition emitScroll_loop :: "callbacks \<Rightarrow> scroll_event \<Rightarrow> state \<Rightarrow> scroll_event \<times> state" where
  \<comment> \<open>the event object as the last callback left it, and the state\<close>
  "emitScroll_loop cb scrollData s =
     forEach (call_scroll cb) (\<lambda>x. scrollCallbacks (snd x)) (scrollData, s)"

definition emitScroll :: "callbacks \<Rightarrow> scroll_event \<Rightarrow> state \<Rightarrow> state" where
  "emitScroll cb scrollData s = snd (emitScroll_loop cb scrollData s)"

subsection \<open>Scroll restoration system\<close>

definition captureScroll :: "callbacks \<Rightarrow> string \<Rightarrow> state \<Rightarrow> state" where
  "captureScroll cb routePath s =
     (let scrollData = \<lparr>winX = pageXOffset (env s), winY = pageYOffset (env s),
                        timestamp = clock (env s), sroute = routePath\<rparr>;
          s1 = emitScroll cb (event_of Capture scrollData) s
      in s1\<lparr>scrollPositions := (scrollPositions s1)(routePath \<mapsto> scrollData)\<rparr>)"

definition restoreScroll :: "string \<Rightarrow> state \<Rightarrow> state" where
  "restoreScroll routePath s =
     (case scrollPositions s routePath of
        None \<Rightarrow> s
      | Some saved \<Rightarrow> say [RequestAnimationFrame] (s\<lparr>frames := frames s @ [RestoreFrame saved]\<rparr>))"

subsection \<open>Navigation guard system\<close>

fun sync_throw :: "settlement list \<Rightarrow> thrown option" where
  \<comment> \<open>the first guard, in the order of the calls, that throws at once\<close>
  "sync_throw [] = None"
| "sync_throw (ThrowsSync e # rs) = Some e"
| "sync_throw (Fulfils # rs) = sync_throw rs"
| "sync_throw (Rejects t e # rs) = sync_throw rs"
| "sync_throw (Hangs # rs) = sync_throw rs"

fun earliest_rejection :: "settlement list \<Rightarrow> (nat \<times> thrown) option" where
  \<comment> \<open>the promise that rejects first; of two that reject at the same moment, the one of
      the earlier call\<close>
  "earliest_rejection [] = None"
| "earliest_rejection (Rejects t e # rs) =
     (case earliest_rejection rs of
        None \<Rightarrow> Some (t, e)
      | Some (t', e') \<Rightarrow> if t' < t then Some (t', e') else Some (t, e))"
| "earliest_rejection (Fulfils # rs) = earliest_rejection rs"
| "earliest_rejection (ThrowsSync e # rs) = earliest_rejection rs"
| "earliest_rejection (Hangs # rs) = earliest_rejection rs"

definition first_rejection :: "settlement list \<Rightarrow> thrown option" where
  \<comment> \<open>the reason \<^verbatim>\<open>Promise.all\<close> rejects with, that of the first promise to reject: the
      wrapper of a guard that throws at once is rejected before \<^verbatim>\<open>Promise.all\<close> is
      called, the wrapper of a guard that returns a promise only after that\<close>
  "first_rejection rs =
     (case sync_throw rs of
        Some e \<Rightarrow> Some e
      | None \<Rightarrow> map_option snd (earliest_rejection rs))"

definition call_guard :: "callbacks \<Rightarrow> nat \<Rightarrow> nat \<Rightarrow> settlement list \<times> state \<Rightarrow> settlement list \<times> state" where
  \<comment> \<open>the body of the loop: \<^verbatim>\<open>callback(newRoute, route)\<close>\<close>
  "call_guard cb newRoute ref x =
     (let (r, s') = guard cb ref newRoute (route (snd x))
                      (say [CallBefore ref newRoute (route (snd x))] (snd x))
      in (fst x @ [r], s'))"

definition canNavigate :: "callbacks \<Rightarrow> nat \<Rightarrow> state \<Rightarrow> bool promise \<times> state" where
  "canNavigate cb newRoute s =
     (if destroyed s then (Resolved False, s)
      else
        let s1 = (if path (current s) \<noteq> [] then captureScroll cb (path (current s)) s else s);
            (results, s2) = forEach (call_guard cb newRoute) (\<lambda>x. beforeListeners (snd x)) ([], s1)
        in case first_rejection results of
             None \<Rightarrow> if Hangs \<in> set results then (Pending, s2) else (Resolved True, s2)
           | Some e \<Rightarrow>
               (let s3 = say [ConsoleError ''Navigation cancelled by guard:'' e] s2
                in case e of
                     Nullish \<Rightarrow> (Rejected TypeError, s3)
                   | Fault message \<Rightarrow>
                       (Resolved False,
                        emitStatus cb (mark_cancelled @ '' '' @ message) Error s3)))"

definition call_hook :: "callbacks \<Rightarrow> nat \<Rightarrow> nat \<Rightarrow> state \<Rightarrow> state" where
  \<comment> \<open>the body of the loop: \<^verbatim>\<open>callback(newRoute, prevRoute)\<close> in its \<^verbatim>\<open>try\<close>\<close>
  "call_hook cb newRoute ref s =
     (let (c, s') = hook cb ref newRoute (prevRoute s) (say [CallAfter ref newRoute (prevRoute s)] s)
      in say (thrown_effects ''After hook error:'' c) s')"

definition completeNavigation :: "callbacks \<Rightarrow> nat \<Rightarrow> state \<Rightarrow> state" where
  "completeNavigation cb newRoute s =
     (if destroyed s then s
      else
        let (copy, s1) = alloc (current s) s;
            s2 = s1\<lparr>prevRoute := copy, route := newRoute\<rparr>;
            s3 = forEach (call_hook cb newRoute) afterListeners s2;
            s4 = restoreScroll (path (heap s3 ! newRoute)) s3
        in emitStatus cb (mark_complete @ '' Navigation complete'') Success s4)"

subsection \<open>Guard registration functions\<close>

text \<open>
  The argument of a registration is \<open>None\<close> when the caller passed something that is not
  a function. A disposer is the closure a registration returns; it removes the first
  occurrence of its reference.
\<close>

datatype disposer = Inert | UnBefore nat | UnAfter nat | UnStatus nat | UnScroll nat

definition addBeforeListener :: "callbacks \<Rightarrow> nat option \<Rightarrow> state \<Rightarrow> (thrown + disposer) \<times> state" where
  "addBeforeListener cb callback s =
     (case callback of
        None \<Rightarrow> (Inr Inert, s)
      | Some ref \<Rightarrow>
          if destroyed s then (Inr Inert, s)
          else
            let (r, s1) = guard cb ref (route s) (prevRoute s)
                            (say [CallBefore ref (route s) (prevRoute s)]
                               (s\<lparr>beforeListeners := beforeListeners s @ [ref]\<rparr>))
            in (case r of
                  ThrowsSync e \<Rightarrow> (Inl e, s1)
                | _ \<Rightarrow> (Inr (UnBefore ref), s1)))"

definition addAfterListener :: "nat option \<Rightarrow> state \<Rightarrow> disposer \<times> state" where
  "addAfterListener callback s =
     (case callback of
        None \<Rightarrow> (Inert, s)
      | Some ref \<Rightarrow>
          if destroyed s then (Inert, s)
          else (UnAfter ref, s\<lparr>afterListeners := afterListeners s @ [ref]\<rparr>))"

definition addStatusListener :: "nat option \<Rightarrow> state \<Rightarrow> disposer \<times> state" where
  "addStatusListener callback s =
     (case callback of
        None \<Rightarrow> (Inert, s)
      | Some ref \<Rightarrow>
          if destroyed s then (Inert, s)
          else (UnStatus ref, s\<lparr>statusCallbacks := statusCallbacks s @ [ref]\<rparr>))"

definition addScrollListener :: "nat option \<Rightarrow> state \<Rightarrow> disposer \<times> state" where
  "addScrollListener callback s =
     (case callback of
        None \<Rightarrow> (Inert, s)
      | Some ref \<Rightarrow>
          if destroyed s then (Inert, s)
          else (UnScroll ref, s\<lparr>scrollCallbacks := scrollCallbacks s @ [ref]\<rparr>))"

definition dispose :: "disposer \<Rightarrow> state \<Rightarrow> state" where
  \<comment> \<open>\<^verbatim>\<open>index = xs.indexOf(callback); if (index !== -1) xs.splice(index, 1)\<close>\<close>
  "dispose d s =
     (case d of
        Inert \<Rightarrow> s
      | UnBefore ref \<Rightarrow>
          if destroyed s then s
          else s\<lparr>beforeListeners := remove1 ref (beforeListeners s)\<rparr>
      | UnAfter ref \<Rightarrow>
          if destroyed s then s
          else s\<lparr>afterListeners := remove1 ref (afterListeners s)\<rparr>
      | UnStatus ref \<Rightarrow>
          if destroyed s then s
          else s\<lparr>statusCallbacks := remove1 ref (statusCallbacks s)\<rparr>
      | UnScroll ref \<Rightarrow>
          if destroyed s then s
          else s\<lparr>scrollCallbacks := remove1 ref (scrollCallbacks s)\<rparr>)"

subsection \<open>Core navigation logic\<close>

definition starts_with :: "string \<Rightarrow> string \<Rightarrow> bool" where
  \<comment> \<open>\<^verbatim>\<open>s.startsWith(p)\<close>\<close>
  "starts_with p s = (take (length p) s = p)"

definition isNativeAnchor :: "env \<Rightarrow> string \<Rightarrow> bool" where
  "isNativeAnchor e h = (\<not> starts_with ''#!/'' h \<and> getElementById e (drop 1 h))"

definition write_hash :: "string \<Rightarrow> state \<Rightarrow> state" where
  \<comment> \<open>\<^verbatim>\<open>globalThis.location.hash = v\<close>\<close>
  "write_hash v s = say [SetHash v] (s\<lparr>env := (env s)\<lparr>hash := fragment_hash v\<rparr>\<rparr>)"

definition location_replace :: "string \<Rightarrow> state \<Rightarrow> state" where
  \<comment> \<open>\<^verbatim>\<open>globalThis.location.replace(url)\<close>: the address becomes \<open>url\<close>\<close>
  "location_replace url s =
     say [LocationReplace url]
       (s\<lparr>env := (env s)\<lparr>url_base := takeWhile (\<lambda>c. c \<noteq> CHR ''#'') (strip_url url),
                          hash := url_hash url\<rparr>\<rparr>)"

definition handleRouteChange :: "callbacks \<Rightarrow> state \<Rightarrow> state" where
  \<comment> \<open>the result of the asynchronous function is dropped by the event loop; when it faults
      or hangs, the steps after that point are not taken\<close>
  "handleRouteChange cb s =
     (if destroyed s then s
      else if isNativeAnchor (env s) (hash (env s)) then
        say [RequestAnimationFrame] (s\<lparr>frames := frames s @ [AnchorFrame]\<rparr>)
      else if hash (env s) = lastHash s then s
      else
        let s1 = emitStatus cb (mark_navigating @ '' Navigating...'') Loading s
        in case makeRoute (env s1) of
             Inl x \<Rightarrow> s1
           | Inr r \<Rightarrow>
               (let (newRoute, s2) = alloc r s1;
                    (success, s3) = canNavigate cb newRoute s2
                in case success of
                     Resolved True \<Rightarrow>
                       completeNavigation cb newRoute (s3\<lparr>lastHash := hash (env s3)\<rparr>)
                   | Resolved False \<Rightarrow>
                       (let rollbackHash = (if path (previous s3) \<noteq> []
                                            then ''#!/'' @ path (previous s3) else [])
                        in (write_hash rollbackHash s3)\<lparr>lastHash := rollbackHash\<rparr>)
                   | Rejected x \<Rightarrow> s3
                   | Pending \<Rightarrow> s3))"

definition changeHash :: "callbacks \<Rightarrow> string \<Rightarrow> bool \<Rightarrow> state \<Rightarrow> bool promise \<times> state" where
  "changeHash cb newPath replace s =
     (let cleanPath = dropWhile (\<lambda>c. c = CHR ''/'') newPath;
          safePath = (if starts_with ''#'' newPath then newPath else ''#!/'' @ cleanPath);
          s1 = emitStatus cb (mark_navigating @ '' Navigating...'') Loading s
      in case makeRoute (env s1) of
           Inl x \<Rightarrow> (Rejected x, s1)
         | Inr r \<Rightarrow>
             (let (tempRoute, s2) = alloc (r\<lparr>path := cleanPath\<rparr>) s1;
                  (success, s3) = canNavigate cb tempRoute s2
              in case success of
                   Resolved True \<Rightarrow>
                     (let s4 = (if replace
                                then location_replace
                                       (takeWhile (\<lambda>c. c \<noteq> CHR ''#'') (href (env s3)) @ safePath) s3
                                else write_hash safePath s3)
                      in (Resolved True,
                          completeNavigation cb tempRoute (s4\<lparr>lastHash := safePath\<rparr>)))
                 | Resolved False \<Rightarrow> (Resolved False, s3)
                 | Rejected x \<Rightarrow> (Rejected x, s3)
                 | Pending \<Rightarrow> (Pending, s3)))"

subsection \<open>Event listeners and animation frames\<close>

definition updateScrollTracking :: "callbacks \<Rightarrow> state \<Rightarrow> state" where
  "updateScrollTracking cb s =
     (if destroyed s then s
      else emitScroll cb \<lparr>winX = pageXOffset (env s), winY = pageYOffset (env s),
                          timestamp = clock (env s), sroute = path (current s),
                          etype = Update, custom = []\<rparr> s)"

definition hashchange :: "callbacks \<Rightarrow> state \<Rightarrow> state" where
  \<comment> \<open>the environment reports a change of the address\<close>
  "hashchange cb s = (if hashchange_listener s then handleRouteChange cb s else s)"

definition scroll :: "callbacks \<Rightarrow> state \<Rightarrow> state" where
  \<comment> \<open>the environment reports a scroll of the window\<close>
  "scroll cb s = (if scroll_listener s then updateScrollTracking cb s else s)"

definition run_frame :: "callbacks \<Rightarrow> frame \<Rightarrow> state \<Rightarrow> state" where
  \<comment> \<open>the bodies of the two callbacks given to \<^verbatim>\<open>requestAnimationFrame\<close>\<close>
  "run_frame cb f s =
     (case f of
        RestoreFrame saved \<Rightarrow>
          emitScroll cb (event_of Restore saved) (say [ScrollTo (winX saved) (winY saved)] s)
      | AnchorFrame \<Rightarrow>
          if getElementById (env s) (drop 1 (hash (env s)))
          then say [ScrollIntoView (drop 1 (hash (env s)))] s
          else s)"

definition next_frame :: "callbacks \<Rightarrow> state \<Rightarrow> state" where
  "next_frame cb s = (case frames s of [] \<Rightarrow> s | f # fs \<Rightarrow> run_frame cb f (s\<lparr>frames := fs\<rparr>))"

subsection \<open>Public API\<close>

definition push :: "callbacks \<Rightarrow> string \<Rightarrow> state \<Rightarrow> bool promise \<times> state" where
  "push cb p s = changeHash cb p False s"

definition replace :: "callbacks \<Rightarrow> string \<Rightarrow> state \<Rightarrow> bool promise \<times> state" where
  "replace cb p s = changeHash cb p True s"

definition currentRoute :: "state \<Rightarrow> nat \<times> state" where
  \<comment> \<open>\<^verbatim>\<open>({ ...route })\<close>\<close>
  "currentRoute s = alloc (current s) s"

definition previousRoute :: "state \<Rightarrow> nat \<times> state" where
  "previousRoute s = alloc (previous s) s"

definition getRouteState :: "state \<Rightarrow> (nat \<times> nat) \<times> state" where
  \<comment> \<open>\<^verbatim>\<open>({ to: { ...route }, from: { ...prevRoute } })\<close>: the addresses of the two copies\<close>
  "getRouteState s =
     (let (to, s1) = alloc (current s) s;
          (from, s2) = alloc (previous s1) s1
      in ((to, from), s2))"

definition getTypedParams :: "state \<Rightarrow> typed_obj" where
  "getTypedParams s = paramsTyped (current s)"

definition getTypedQuery :: "state \<Rightarrow> typed_obj" where
  "getTypedQuery s = queryTyped (current s)"

definition saveScrollPosition :: "callbacks \<Rightarrow> string option \<Rightarrow> state \<Rightarrow> state" where
  \<comment> \<open>\<^verbatim>\<open>(path = route.path) => captureScroll(path)\<close>\<close>
  "saveScrollPosition cb p s =
     captureScroll cb (case p of None \<Rightarrow> path (current s) | Some x \<Rightarrow> x) s"

definition restoreScrollPosition :: "string option \<Rightarrow> state \<Rightarrow> state" where
  "restoreScrollPosition p s =
     restoreScroll (case p of None \<Rightarrow> path (current s) | Some x \<Rightarrow> x) s"

definition clearScrollHistory :: "state \<Rightarrow> state" where
  "clearScrollHistory s = s\<lparr>scrollPositions := Map.empty\<rparr>"

definition go :: "int \<Rightarrow> state \<Rightarrow> state" where
  "go n s = say [HistoryGo n] s"

definition history_back :: "state \<Rightarrow> state" where
  \<comment> \<open>the operation \<^verbatim>\<open>back\<close> of the interface\<close>
  "history_back s = say [HistoryBack] s"

definition forward :: "state \<Rightarrow> state" where
  "forward s = say [HistoryForward] s"

definition destroy :: "state \<Rightarrow> state" where
  "destroy s =
     s\<lparr>destroyed := True, lastHash := [],
       hashchange_listener := False, scroll_listener := False,
       beforeListeners := [], afterListeners := [],
       statusCallbacks := [], scrollCallbacks := [],
       scrollPositions := Map.empty\<rparr>"

definition initial_state :: "env \<Rightarrow> route \<Rightarrow> state" where
  \<comment> \<open>the variables of the module closure once both event listeners are installed;
      \<^verbatim>\<open>prevRoute = { ...route }\<close> is a second object\<close>
  "initial_state e r =
     \<lparr>env = e, heap = [r, r], route = 0, prevRoute = 1,
      beforeListeners = [], afterListeners = [],
      statusCallbacks = [], scrollCallbacks = [],
      destroyed = False, lastHash = hash e,
      scrollPositions = Map.empty,
      hashchange_listener = True, scroll_listener = True,
      frames = [], trace = []\<rparr>"

definition create :: "callbacks \<Rightarrow> env \<Rightarrow> error + state" where
  \<comment> \<open>the body of the module closure, run once when the script is loaded; it ends with a
      call of \<^verbatim>\<open>handleRouteChange\<close>, at a moment when nothing is registered yet\<close>
  "create cb e =
     (case makeRoute e of
        Inl x \<Rightarrow> Inl x
      | Inr r \<Rightarrow> Inr (handleRouteChange cb (initial_state e r)))"

text \<open>Every operation of the returned interface, with what it hands back to the caller.\<close>

datatype call =
    BeforeEach "nat option"
  | AfterEach "nat option"
  | OnStatus "nat option"
  | OnScroll "nat option"
  | Dispose disposer
  | Push string
  | Replace string
  | CurrentRoute
  | PreviousRoute
  | GetRouteState
  | GetTypedParams
  | GetTypedQuery
  | SaveScrollPosition "string option"
  | RestoreScrollPosition "string option"
  | ClearScrollHistory
  | Go int
  | Back
  | Forward
  | Destroy

datatype outcome =
    Undefined
  | Raised thrown
  | Closure disposer
  | Promised "bool promise"
  | Object nat
  | Objects nat nat
  | Params typed_obj

fun api :: "callbacks \<Rightarrow> call \<Rightarrow> state \<Rightarrow> outcome \<times> state" where
  "api cb (BeforeEach g) s =
     (case addBeforeListener cb g s of
        (Inl e, s') \<Rightarrow> (Raised e, s')
      | (Inr d, s') \<Rightarrow> (Closure d, s'))"
| "api cb (AfterEach h) s = (let (d, s') = addAfterListener h s in (Closure d, s'))"
| "api cb (OnStatus c) s = (let (d, s') = addStatusListener c s in (Closure d, s'))"
| "api cb (OnScroll c) s = (let (d, s') = addScrollListener c s in (Closure d, s'))"
| "api cb (Dispose d) s = (Undefined, dispose d s)"
| "api cb (Push p) s = (let (r, s') = push cb p s in (Promised r, s'))"
| "api cb (Replace p) s = (let (r, s') = replace cb p s in (Promised r, s'))"
| "api cb CurrentRoute s = (let (a, s') = currentRoute s in (Object a, s'))"
| "api cb PreviousRoute s = (let (a, s') = previousRoute s in (Object a, s'))"
| "api cb GetRouteState s = (let ((a, b), s') = getRouteState s in (Objects a b, s'))"
| "api cb GetTypedParams s = (Params (getTypedParams s), s)"
| "api cb GetTypedQuery s = (Params (getTypedQuery s), s)"
| "api cb (SaveScrollPosition p) s = (Undefined, saveScrollPosition cb p s)"
| "api cb (RestoreScrollPosition p) s = (Undefined, restoreScrollPosition p s)"
| "api cb ClearScrollHistory s = (Undefined, clearScrollHistory s)"
| "api cb (Go n) s = (Undefined, go n s)"
| "api cb Back s = (Undefined, history_back s)"
| "api cb Forward s = (Undefined, forward s)"
| "api cb Destroy s = (Undefined, destroy s)"

subsection \<open>Sample environments, callbacks and routers\<close>

definition page_env :: env where
  \<comment> \<open>a page with no fragment and no query string, scrolled to the top, with one element
      whose id is \<^verbatim>\<open>section1\<close>\<close>
  "page_env =
     \<lparr>hash = [], search = [], url_base = ''http://localhost/'',
      pageXOffset = 0, pageYOffset = 0, clock = 0, element_ids = {''section1''},
      urlSearchParams = simple_search_params\<rparr>"

definition env_at :: "string \<Rightarrow> env" where
  "env_at h = page_env\<lparr>hash := h\<rparr>"

definition empty_route :: route where
  "empty_route = \<lparr>path = [], query = [], params = [], queryTyped = [], paramsTyped = []\<rparr>"

definition about_route :: route where
  "about_route = empty_route\<lparr>path := ''about''\<rparr>"

definition page_router :: state where
  \<comment> \<open>the router as created on that page\<close>
  "page_router = initial_state page_env empty_route"

definition user_goes_to :: "callbacks \<Rightarrow> string \<Rightarrow> state \<Rightarrow> state" where
  \<comment> \<open>the user follows a link to the fragment \<open>h\<close> or types it into the address bar: the
      address changes and the environment reports it\<close>
  "user_goes_to cb h s = hashchange cb (s\<lparr>env := (env s)\<lparr>hash := h\<rparr>\<rparr>)"

definition silent :: callbacks where
  \<comment> \<open>callbacks that return at once and do not touch the router\<close>
  "silent =
     \<lparr>guard = (\<lambda>ref to from s. (Fulfils, s)),
      hook = (\<lambda>ref to from s. (Returns, s)),
      status_observer = (\<lambda>ref status ty to from s. (Returns, s)),
      scroll_observer = (\<lambda>ref ev s. ((ev, Returns), s))\<rparr>"

definition veto_table :: "thrown \<Rightarrow> callbacks" where
  \<comment> \<open>the guard with reference 1 returns a promise rejected with \<open>e\<close> for the path
      \<^verbatim>\<open>admin\<close>, and a fulfilled one otherwise\<close>
  "veto_table e =
     silent\<lparr>guard := (\<lambda>ref to from s.
                (if ref = 1 \<and> path (heap s ! to) = ''admin'' then Rejects 0 e else Fulfils, s))\<rparr>"

definition guarded_router :: "thrown \<Rightarrow> state" where
  \<comment> \<open>\<^verbatim>\<open>beforeEach(guard)\<close> on the fresh router\<close>
  "guarded_router e = snd (addBeforeListener (veto_table e) (Some 1) page_router)"

definition watched_router :: "thrown \<Rightarrow> state" where
  \<comment> \<open>\<^verbatim>\<open>onStatus(observer)\<close> on the guarded router, with an observer that returns\<close>
  "watched_router e = snd (addStatusListener (Some 5) (guarded_router e))"

definition visited_router :: "thrown \<Rightarrow> state" where
  \<comment> \<open>the guarded router after \<^verbatim>\<open>push('/home')\<close> and then \<^verbatim>\<open>push('/about')\<close>\<close>
  "visited_router e =
     snd (push (veto_table e) ''/about'' (snd (push (veto_table e) ''/home'' (guarded_router e))))"

definition encoded_router :: "thrown \<Rightarrow> state" where
  \<comment> \<open>the guarded router after \<^verbatim>\<open>push('/my page')\<close> and the change event of that write\<close>
  "encoded_router e =
     hashchange (veto_table e) (snd (push (veto_table e) ''/my page'' (guarded_router e)))"

definition redirecting_table :: callbacks where
  \<comment> \<open>the guard with reference 1, for the path \<^verbatim>\<open>admin\<close>, awaits
      \<^verbatim>\<open>replace('/login')\<close> and then throws; the guard phase of that inner navigation
      calls the same guard, which fulfils for \<^verbatim>\<open>login\<close>\<close>
  "redirecting_table =
     silent\<lparr>guard := (\<lambda>ref to from s.
                if ref = 1 \<and> path (heap s ! to) = ''admin''
                then (Rejects 1 (Fault ''Authentication required''),
                      snd (replace silent ''/login'' s))
                else (Fulfils, s))\<rparr>"

definition enriching_table :: callbacks where
  \<comment> \<open>the scroll observer with reference 2, on a capture, overwrites the vertical offset
      of the event and adds a field of its own\<close>
  "enriching_table =
     silent\<lparr>scroll_observer := (\<lambda>ref ev s.
                ((if ref = 2 \<and> etype ev = Capture
                  then ev\<lparr>winY := 999, custom := [(''customContainerY'', 40)]\<rparr> else ev,
                  Returns), s))\<rparr>"

definition observed_router :: state where
  \<comment> \<open>\<^verbatim>\<open>onScroll(observer)\<close> on the fresh router\<close>
  "observed_router = snd (addScrollListener (Some 2) page_router)"





subsection \<open>Auxiliary notions for the statements\<close>

definition assign :: "nat \<Rightarrow> route \<Rightarrow> state \<Rightarrow> state" where
  \<comment> \<open>a caller assigns to top-level fields of the object at address \<open>a\<close>, which leaves it
      with the contents \<open>r\<close>\<close>
  "assign a r s = s\<lparr>heap := (heap s)[a := r]\<rparr>"

definition is_call :: "effect \<Rightarrow> bool" where
  \<comment> \<open>everything in the trace but the console output\<close>
  "is_call e = (case e of ConsoleError label x \<Rightarrow> False | _ \<Rightarrow> True)"

definition scroll_callee :: "effect \<Rightarrow> nat option" where
  \<comment> \<open>the scroll observer a trace entry is a call of, if it is one\<close>
  "scroll_callee e = (case e of CallScroll ref ev \<Rightarrow> Some ref | _ \<Rightarrow> None)"

definition since :: "state \<Rightarrow> state \<Rightarrow> effect list" where
  \<comment> \<open>what was added to the trace from \<open>s\<close> to \<open>s'\<close>\<close>
  "since s s' = drop (length (trace s)) (trace s')"

definition quiet :: "callbacks \<Rightarrow> bool" where
  \<comment> \<open>no callback calls into the router: each leaves the state as it found it\<close>
  "quiet cb =
     ((\<forall>ref to from s. snd (guard cb ref to from s) = s) \<and>
      (\<forall>ref to from s. snd (hook cb ref to from s) = s) \<and>
      (\<forall>ref status ty to from s. snd (status_observer cb ref status ty to from s) = s) \<and>
      (\<forall>ref ev s. snd (scroll_observer cb ref ev s) = s))"

definition keeps :: "state \<Rightarrow> state \<Rightarrow> bool" where
  \<comment> \<open>from \<open>s\<close> to \<open>s'\<close> no object was lost and the route variables stay valid\<close>
  "keeps s s' = (allocated s \<longrightarrow> allocated s' \<and> length (heap s) \<le> length (heap s'))"

definition undisturbed :: "state \<Rightarrow> state \<Rightarrow> bool" where
  \<comment> \<open>from \<open>s\<close> to \<open>t\<close> only the trace and the scroll table may have changed\<close>
  "undisturbed s t =
     (env t = env s \<and> heap t = heap s \<and> route t = route s \<and> prevRoute t = prevRoute s \<and>
      beforeListeners t = beforeListeners s \<and> afterListeners t = afterListeners s \<and>
      statusCallbacks t = statusCallbacks s \<and> scrollCallbacks t = scrollCallbacks s \<and>
      destroyed t = destroyed s \<and> lastHash t = lastHash s \<and>
      hashchange_listener t = hashchange_listener s \<and> scroll_listener t = scroll_listener s \<and>
      frames t = frames s)"

definition sound :: "nat \<Rightarrow> state \<Rightarrow> bool" where
  \<comment> \<open>the route variables are valid and the store holds at least \<open>L\<close> objects\<close>
  "sound L s = (allocated s \<and> L \<le> length (heap s))"

definition well_behaved :: "callbacks \<Rightarrow> bool" where
  \<comment> \<open>what holds of a callback that acts on the router through its interface only\<close>
  "well_behaved cb =
     ((\<forall>ref to from s. keeps s (snd (guard cb ref to from s))) \<and>
      (\<forall>ref to from s. keeps s (snd (hook cb ref to from s))) \<and>
      (\<forall>ref status ty to from s. keeps s (snd (status_observer cb ref status ty to from s))) \<and>
      (\<forall>ref ev s. keeps s (snd (scroll_observer cb ref ev s))))"

subsection \<open>The state after teardown\<close>

definition torn_down :: "state \<Rightarrow> bool" where
  \<comment> \<open>what \<^verbatim>\<open>destroy\<close> establishes and no later operation undoes\<close>
  "torn_down s =
     (destroyed s \<and> \<not> hashchange_listener s \<and> \<not> scroll_listener s \<and>
      beforeListeners s = [] \<and> afterListeners s = [] \<and>
      statusCallbacks s = [] \<and> scrollCallbacks s = [])"

section \<open>Properties\<close>

subsection \<open>Type coercion\<close>

text \<open>
  C9. \<open>coerceValue\<close> is a function of its argument alone. The four literals
  \<^verbatim>\<open>true\<close>, \<^verbatim>\<open>false\<close>, \<^verbatim>\<open>null\<close> and \<^verbatim>\<open>undefined\<close> are recognised first. Any
  other string that \<^verbatim>\<open>Number\<close> can read becomes that number, unless nothing is left of
  it once white space is trimmed off; a string that \<^verbatim>\<open>Number\<close> cannot read, and one
  that is empty or all white space, is returned as it is. So \<^verbatim>\<open>42\<close> and \<^verbatim>\<open>4.5\<close> become
  numbers, and \<^verbatim>\<open>abc\<close> and the empty string stay strings.
\<close>

theorem coerceValue_precedence:
  "coerceValue ''true'' = JBool True \<and> coerceValue ''false'' = JBool False \<and>
   coerceValue ''null'' = JNull \<and> coerceValue ''undefined'' = JUndefined \<and>
   (v \<notin> {''true'', ''false'', ''null'', ''undefined''} \<longrightarrow>
      (\<forall>n. Number v = Some n \<and> trim v \<noteq> [] \<longrightarrow> coerceValue v = JNumber n) \<and>
      (Number v = None \<or> trim v = [] \<longrightarrow> coerceValue v = JString v)) \<and>
   coerceValue ''42'' = JNumber (Finite 42) \<and>
   coerceValue ''4.5'' = JNumber (Finite (9 / 2)) \<and>
   coerceValue ''abc'' = JString ''abc'' \<and> coerceValue [] = JString []"
proof -
  have lits: "coerceValue ''true'' = JBool True" "coerceValue ''false'' = JBool False"
    "coerceValue ''null'' = JNull" "coerceValue ''undefined'' = JUndefined"
    by (simp_all add: coerceValue_def)
  have ex: "coerceValue ''42'' = JNumber (Finite 42)"
    "coerceValue ''4.5'' = JNumber (Finite (9 / 2))"
    "coerceValue ''abc'' = JString ''abc''" "coerceValue [] = JString []"
    by code_simp+
  have gen: "v \<notin> {''true'', ''false'', ''null'', ''undefined''} \<longrightarrow>
      (\<forall>n. Number v = Some n \<and> trim v \<noteq> [] \<longrightarrow> coerceValue v = JNumber n) \<and>
      (Number v = None \<or> trim v = [] \<longrightarrow> coerceValue v = JString v)"
    by (auto simp: coerceValue_def split: option.splits)
  from lits ex gen show ?thesis by blast
qed

theorem coerceValue_precedence_witness:
  "''7.25'' \<notin> {''true'', ''false'', ''null'', ''undefined''} \<and>
   Number ''7.25'' = Some (Finite (29 / 4)) \<and> trim ''7.25'' \<noteq> [] \<and>
   coerceValue ''7.25'' = JNumber (Finite (29 / 4)) \<and>
   ''x1'' \<notin> {''true'', ''false'', ''null'', ''undefined''} \<and>
   Number ''x1'' = None \<and> coerceValue ''x1'' = JString ''x1''"
proof -
  have a: "Number ''7.25'' = Some (Finite (29 / 4))" by code_simp
  have b: "trim ''7.25'' \<noteq> []" by code_simp
  have c: "Number ''x1'' = None" by code_simp
  from a b c coerceValue_precedence [of "''7.25''"] coerceValue_precedence [of "''x1''"]
  show ?thesis by simp
qed

text \<open>
  A single space is not the empty string and \<^verbatim>\<open>Number\<close> reads it as zero, yet it is
  returned as a string: the test is on the trimmed text.
\<close>

theorem coerceValue_blank_counterexample:
  "'' '' \<notin> {''true'', ''false'', ''null'', ''undefined''} \<and> '' '' \<noteq> [] \<and>
   Number '' '' = Some (Finite 0) \<and> coerceValue '' '' = JString '' ''"
  by code_simp


subsection \<open>The route built from the address\<close>

lemma split_on_nonempty: "split_on sep s \<noteq> []"
  by (induction s) (auto split: list.splits)

lemma hd_split_on: "hd (split_on sep s) = takeWhile (\<lambda>c. c \<noteq> sep) s"
  by (induction s) (auto split: list.splits simp: split_on_nonempty)

lemma first_part_split_on:
  "part_or_empty (split_on sep s) 0 = takeWhile (\<lambda>c. c \<noteq> sep) s"
  using split_on_nonempty [of sep s]
  by (simp add: part_or_empty_def hd_split_on [symmetric] hd_conv_nth)

lemma second_part_split_on:
  "part_or_empty (split_on sep s) (Suc 0) =
     takeWhile (\<lambda>c. c \<noteq> sep) (drop (Suc 0) (dropWhile (\<lambda>c. c \<noteq> sep) s))"
proof (induction s)
  case Nil
  show ?case by (simp add: part_or_empty_def)
next
  case (Cons c cs)
  obtain p ps where sp: "split_on sep cs = p # ps"
    using split_on_nonempty [of sep cs] by (cases "split_on sep cs") auto
  show ?case
  proof (cases "c = sep")
    case True
    with sp hd_split_on [of sep cs] show ?thesis
      by (simp add: part_or_empty_def)
  next
    case False
    with sp Cons.IH show ?thesis
      by (auto simp: part_or_empty_def split: if_splits)
  qed
qed

lemma strip_marker_eq:
  "strip_marker h =
     (if take 3 h = ''#!/'' then drop 3 h else if take 2 h = ''#!'' then drop 2 h else h)"
  by (auto simp: strip_marker_def split: list.splits)

lemma simple_search_params_empty: "simple_search_params [] = []"
  by code_simp

text \<open>
  C4. The builder removes a leading \<^verbatim>\<open>#!/\<close> or, failing that, a leading
  \<^verbatim>\<open>#!\<close> from the hash, and leaves a hash that starts otherwise as it is; this is
  \<open>raw\<close>. The path is the text of \<open>raw\<close> before its first \<^verbatim>\<open>?\<close>, so it holds no
  \<^verbatim>\<open>?\<close> and is empty when \<open>raw\<close> is empty or starts with \<^verbatim>\<open>?\<close>. The hash
  parameters are read from the text between the first \<^verbatim>\<open>?\<close> and the second one (or the
  end, when there is no second one): what follows a second \<^verbatim>\<open>?\<close> is dropped.
\<close>

theorem makeRoute_path_and_query:
  assumes "makeRoute e = Inr r"
  shows "strip_marker (hash e) =
           (if take 3 (hash e) = ''#!/'' then drop 3 (hash e)
            else if take 2 (hash e) = ''#!'' then drop 2 (hash e) else hash e) \<and>
         path r = takeWhile (\<lambda>c. c \<noteq> CHR ''?'') (strip_marker (hash e)) \<and>
         CHR ''?'' \<notin> set (path r) \<and>
         (strip_marker (hash e) = [] \<or> take 1 (strip_marker (hash e)) = ''?''
            \<longrightarrow> path r = []) \<and>
         paramsToObj (urlSearchParams e
            (takeWhile (\<lambda>c. c \<noteq> CHR ''?'')
               (drop 1 (dropWhile (\<lambda>c. c \<noteq> CHR ''?'') (strip_marker (hash e))))))
           = Inr (params r)"
proof -
  let ?raw = "strip_marker (hash e)"
  from assms have p: "path r = takeWhile (\<lambda>c. c \<noteq> CHR ''?'') ?raw"
    by (auto simp: makeRoute_def Let_def first_part_split_on split: sum.splits)
  from assms have q: "paramsToObj (urlSearchParams e
            (takeWhile (\<lambda>c. c \<noteq> CHR ''?'')
               (drop 1 (dropWhile (\<lambda>c. c \<noteq> CHR ''?'') ?raw)))) = Inr (params r)"
    by (auto simp: makeRoute_def Let_def second_part_split_on split: sum.splits)
  have n: "CHR ''?'' \<notin> set (path r)"
    unfolding p by (auto dest: set_takeWhileD)
  have e: "?raw = [] \<or> take 1 ?raw = ''?'' \<longrightarrow> path r = []"
    unfolding p by (cases ?raw) auto
  from p q n e strip_marker_eq [of "hash e"] show ?thesis by blast
qed

lemma makeRoute_products:
  "makeRoute (env_at ''#!/products?category=books&category=electronics&sort=price'') =
     Inr \<lparr>path = ''products'', query = [],
          params = [(''category'', [''books'', ''electronics'']), (''sort'', [''price''])],
          queryTyped = [],
          paramsTyped = [(''category'', [JString ''books'', JString ''electronics'']),
                         (''sort'', [JString ''price''])]\<rparr>"
proof -
  have a: "simple_search_params ''category=books&category=electronics&sort=price'' =
             [(''category'', ''books''), (''category'', ''electronics''), (''sort'', ''price'')]"
    by code_simp
  have b: "coerceValue ''books'' = JString ''books''"
    "coerceValue ''electronics'' = JString ''electronics''"
    "coerceValue ''price'' = JString ''price''"
    by code_simp+
  show ?thesis
    by (simp add: makeRoute_def env_at_def page_env_def strip_marker_def part_or_empty_def
        a b simple_search_params_empty paramsToObj_def object_prototype_keys_def
        coerceParams_def)
qed

theorem makeRoute_path_and_query_witness:
  "makeRoute (env_at ''#!/products?category=books&category=electronics&sort=price'') =
     Inr \<lparr>path = ''products'', query = [],
          params = [(''category'', [''books'', ''electronics'']), (''sort'', [''price''])],
          queryTyped = [],
          paramsTyped = [(''category'', [JString ''books'', JString ''electronics'']),
                         (''sort'', [JString ''price''])]\<rparr> \<and>
   CHR ''?'' \<notin> set ''products'' \<and>
   paramsToObj (simple_search_params ''category=books&category=electronics&sort=price'') =
     Inr [(''category'', [''books'', ''electronics'']), (''sort'', [''price''])]"
  using makeRoute_path_and_query [OF makeRoute_products] makeRoute_products
  by (simp add: env_at_def page_env_def strip_marker_def)

text \<open>
  With two question marks in the hash, the parameter \<^verbatim>\<open>c\<close> after the second one is
  lost, and \<^verbatim>\<open>b\<close> is \<^verbatim>\<open>1\<close>, not \<^verbatim>\<open>1?c=2\<close>. A hash without the \<^verbatim>\<open>!\<close>
  keeps its \<^verbatim>\<open>#\<close> in the path.
\<close>

theorem makeRoute_second_question_mark_counterexample:
  "makeRoute (env_at ''#!/a?b=1?c=2'') =
     Inr \<lparr>path = ''a'', query = [], params = [(''b'', [''1''])],
          queryTyped = [], paramsTyped = [(''b'', [JNumber (Finite 1)])]\<rparr> \<and>
   simple_search_params ''b=1?c=2'' = [(''b'', ''1?c=2'')] \<and>
   makeRoute (env_at ''#top'') =
     Inr \<lparr>path = ''#top'', query = [], params = [], queryTyped = [], paramsTyped = []\<rparr>"
proof -
  have a: "simple_search_params ''b=1'' = [(''b'', ''1'')]"
    "simple_search_params ''b=1?c=2'' = [(''b'', ''1?c=2'')]"
    by code_simp+
  have b: "coerceValue ''1'' = JNumber (Finite 1)"
    by code_simp
  show ?thesis
    by (simp add: makeRoute_def env_at_def page_env_def strip_marker_def part_or_empty_def
        a b simple_search_params_empty paramsToObj_def object_prototype_keys_def
        coerceParams_def)
qed


subsection \<open>Loops over the registries\<close>

lemma for_each_empty: "array x = [] \<Longrightarrow> for_each body array n k x = x"
  by (induction n arbitrary: k) simp_all

lemma forEach_empty: "array x = [] \<Longrightarrow> forEach body array x = x"
  by (simp add: forEach_def)

lemma for_each_invariant:
  assumes "\<And>ref y. I y \<Longrightarrow> I (body ref y)" and "I x"
  shows "I (for_each body array n k x)"
  using assms(2)
proof (induction n arbitrary: k x)
  case 0
  then show ?case by simp
next
  case (Suc n)
  then show ?case by (simp add: assms(1))
qed

lemma forEach_invariant:
  assumes "\<And>ref y. I y \<Longrightarrow> I (body ref y)" and "I x"
  shows "I (forEach body array x)"
  unfolding forEach_def using assms by (rule for_each_invariant)

lemma say_Nil [simp]: "say [] s = s"
  by (simp add: say_def)

lemma say_say: "say es (say ds s) = say (ds @ es) s"
  by (simp add: say_def)

lemma emitStatus_silent: "statusCallbacks s = [] \<Longrightarrow> emitStatus cb m t s = s"
  by (simp add: emitStatus_def forEach_empty)

lemma emitScroll_silent: "scrollCallbacks s = [] \<Longrightarrow> emitScroll cb ev s = s"
  by (simp add: emitScroll_def emitScroll_loop_def forEach_empty)

lemma canNavigate_destroyed: "destroyed s \<Longrightarrow> canNavigate cb n s = (Resolved False, s)"
  by (simp add: canNavigate_def)

subsection \<open>Facts about the sample states\<close>

lemma makeRoute_page_env: "makeRoute page_env = Inr empty_route"
  by (simp add: makeRoute_def page_env_def strip_marker_def part_or_empty_def
        simple_search_params_empty paramsToObj_def coerceParams_def empty_route_def)

lemma page_env_fields:
  "hash page_env = []" "search page_env = []" "url_base page_env = ''http://localhost/''"
  "pageXOffset page_env = 0" "pageYOffset page_env = 0" "clock page_env = 0"
  "element_ids page_env = {''section1''}" "urlSearchParams page_env = simple_search_params"
  by (simp_all add: page_env_def)

lemma create_page_env: "create cb page_env = Inr page_router"
  by (simp add: create_def makeRoute_page_env page_router_def handleRouteChange_def
        initial_state_def isNativeAnchor_def getElementById_def starts_with_def page_env_fields)

lemma allocated_page_router: "allocated page_router"
  by (simp add: allocated_def page_router_def initial_state_def)

subsection \<open>Native anchors\<close>

text \<open>
  C8. On a live router, when the hash does not start with \<^verbatim>\<open>#!/\<close> and the document has
  an element whose id is the hash without its first character, \<open>handleRouteChange\<close> only
  requests an animation frame and stops: no route object is allocated, no callback of any
  kind is called, and the current route, the previous route and \<open>lastHash\<close> are as before.
  The frame, once run, scrolls that element into view.
\<close>

theorem handleRouteChange_native_anchor:
  assumes "\<not> destroyed s"
    and "\<not> starts_with ''#!/'' (hash (env s))"
    and "getElementById (env s) (drop 1 (hash (env s)))"
  shows "handleRouteChange cb s =
           s\<lparr>frames := frames s @ [AnchorFrame], trace := trace s @ [RequestAnimationFrame]\<rparr> \<and>
         heap (handleRouteChange cb s) = heap s \<and>
         current (handleRouteChange cb s) = current s \<and>
         previous (handleRouteChange cb s) = previous s \<and>
         lastHash (handleRouteChange cb s) = lastHash s \<and>
         since s (handleRouteChange cb s) = [RequestAnimationFrame] \<and>
         run_frame cb AnchorFrame s = say [ScrollIntoView (drop 1 (hash (env s)))] s"
  using assms
  by (simp add: handleRouteChange_def isNativeAnchor_def say_def current_def previous_def
      run_frame_def since_def)

theorem handleRouteChange_native_anchor_witness:
  "\<not> destroyed page_router \<and> \<not> starts_with ''#!/'' ''#section1'' \<and>
   getElementById page_env (drop 1 ''#section1'') \<and>
   user_goes_to silent ''#section1'' page_router =
     page_router\<lparr>env := env_at ''#section1'', frames := [AnchorFrame],
                  trace := [RequestAnimationFrame]\<rparr> \<and>
   current (user_goes_to silent ''#section1'' page_router) = empty_route"
  using handleRouteChange_native_anchor
     [of "page_router\<lparr>env := env_at ''#section1''\<rparr>" silent]
  by (simp add: user_goes_to_def hashchange_def page_router_def initial_state_def
        starts_with_def getElementById_def page_env_def env_at_def current_def)


subsection \<open>After teardown\<close>

lemma changeHash_torn_down:
  assumes "torn_down s"
  shows "changeHash cb p rep s =
           (case makeRoute (env s) of
              Inl x \<Rightarrow> (Rejected x, s)
            | Inr r \<Rightarrow> (Resolved False,
                        s\<lparr>heap := heap s @ [r\<lparr>path := dropWhile (\<lambda>c. c = CHR ''/'') p\<rparr>]\<rparr>))"
  using assms
  by (simp add: changeHash_def torn_down_def emitStatus_silent alloc_def canNavigate_destroyed
      Let_def split: sum.splits)

lemma torn_down_destroy: "torn_down (destroy s)"
  by (simp add: torn_down_def destroy_def)

lemma allocated_destroy: "allocated s \<Longrightarrow> allocated (destroy s)"
  by (simp add: allocated_def destroy_def)

lemma events_after_destroy:
  "torn_down s \<Longrightarrow> hashchange cb s = s \<and> scroll cb s = s \<and> handleRouteChange cb s = s"
  by (simp add: torn_down_def hashchange_def scroll_def handleRouteChange_def)

text \<open>
  C3. Once \<open>destroy\<close> has run, no operation of the interface unsets the
  latch or throws, and the current and the previous route stay what they were.
  The four registrations return an inert disposer and register nothing; a disposer does
  nothing; \<open>push\<close> and \<open>replace\<close> resolve to false when the address can be read (and
  reject when reading it faults), and like the three route getters they change nothing but
  allocate an object; the getters return copies of the last committed routes. The latch is
  not consulted by the scroll and history operations, which still act (the counterexample
  below), and a second \<open>destroy\<close> clears the scroll table again.
\<close>

theorem after_destroy:
  assumes "torn_down s" and "allocated s" and "api cb c s = (out, s')"
  shows "destroyed s' \<and> torn_down s' \<and> allocated s' \<and>
         route s' = route s \<and> prevRoute s' = prevRoute s \<and>
         current s' = current s \<and> previous s' = previous s \<and>
         (\<forall>e. out \<noteq> Raised e) \<and>
         ((\<exists>g. c = BeforeEach g) \<or> (\<exists>h. c = AfterEach h) \<or> (\<exists>f. c = OnStatus f) \<or>
          (\<exists>f. c = OnScroll f) \<longrightarrow> out = Closure Inert \<and> s' = s) \<and>
         ((\<exists>d. c = Dispose d) \<longrightarrow> s' = s) \<and>
         ((\<exists>p. c = Push p \<or> c = Replace p) \<longrightarrow>
            out = Promised (case makeRoute (env s) of
                              Inr r \<Rightarrow> Resolved False | Inl x \<Rightarrow> Rejected x) \<and>
            s'\<lparr>heap := heap s\<rparr> = s) \<and>
         (c = CurrentRoute \<longrightarrow>
            (\<exists>a. out = Object a \<and> heap s' ! a = current s) \<and> s'\<lparr>heap := heap s\<rparr> = s) \<and>
         (c = PreviousRoute \<longrightarrow>
            (\<exists>a. out = Object a \<and> heap s' ! a = previous s) \<and> s'\<lparr>heap := heap s\<rparr> = s) \<and>
         (c = GetRouteState \<longrightarrow>
            (\<exists>a b. out = Objects a b \<and> heap s' ! a = current s \<and> heap s' ! b = previous s) \<and>
            s'\<lparr>heap := heap s\<rparr> = s) \<and>
         (c = GetTypedParams \<longrightarrow> out = Params (paramsTyped (current s)) \<and> s' = s) \<and>
         (c = GetTypedQuery \<longrightarrow> out = Params (queryTyped (current s)) \<and> s' = s) \<and>
         (c = Destroy \<longrightarrow> s' = s\<lparr>lastHash := [], scrollPositions := Map.empty\<rparr>)"
proof (cases c)
  case (BeforeEach g)
  with assms show ?thesis
    by (auto simp: addBeforeListener_def torn_down_def split: option.splits)
next
  case (AfterEach h)
  with assms show ?thesis
    by (auto simp: addAfterListener_def torn_down_def split: option.splits)
next
  case (OnStatus f)
  with assms show ?thesis
    by (auto simp: addStatusListener_def torn_down_def split: option.splits)
next
  case (OnScroll f)
  with assms show ?thesis
    by (auto simp: addScrollListener_def torn_down_def split: option.splits)
next
  case (Dispose d)
  with assms show ?thesis
    by (auto simp: dispose_def torn_down_def split: disposer.splits)
next
  case (Push p)
  with assms show ?thesis
    by (auto simp: push_def changeHash_torn_down torn_down_def allocated_def current_def previous_def
        nth_append split: sum.splits)
next
  case (Replace p)
  with assms show ?thesis
    by (auto simp: replace_def changeHash_torn_down torn_down_def allocated_def current_def previous_def
        nth_append split: sum.splits)
next
  case CurrentRoute
  with assms show ?thesis
    by (auto simp: currentRoute_def alloc_def torn_down_def allocated_def current_def previous_def
        nth_append)
next
  case PreviousRoute
  with assms show ?thesis
    by (auto simp: previousRoute_def alloc_def torn_down_def allocated_def current_def previous_def
        nth_append)
next
  case GetRouteState
  with assms show ?thesis
    by (auto simp: getRouteState_def alloc_def torn_down_def allocated_def current_def previous_def
        nth_append)
next
  case GetTypedParams
  with assms show ?thesis
    by (auto simp: getTypedParams_def torn_down_def)
next
  case GetTypedQuery
  with assms show ?thesis
    by (auto simp: getTypedQuery_def torn_down_def)
next
  case (SaveScrollPosition p)
  with assms show ?thesis
    by (auto simp: saveScrollPosition_def captureScroll_def emitScroll_silent torn_down_def
        allocated_def current_def previous_def Let_def)
next
  case (RestoreScrollPosition p)
  with assms show ?thesis
    by (auto simp: restoreScrollPosition_def restoreScroll_def say_def torn_down_def
        allocated_def current_def previous_def split: option.splits)
next
  case ClearScrollHistory
  with assms show ?thesis
    by (auto simp: clearScrollHistory_def torn_down_def allocated_def current_def previous_def)
next
  case (Go n)
  with assms show ?thesis
    by (auto simp: go_def say_def torn_down_def allocated_def current_def previous_def)
next
  case Back
  with assms show ?thesis
    by (auto simp: history_back_def say_def torn_down_def allocated_def current_def previous_def)
next
  case Forward
  with assms show ?thesis
    by (auto simp: forward_def say_def torn_down_def allocated_def current_def previous_def)
next
  case Destroy
  with assms show ?thesis
    by (auto simp: destroy_def torn_down_def allocated_def current_def previous_def)
qed

theorem after_destroy_witness:
  "torn_down (destroy page_router) \<and> allocated (destroy page_router) \<and>
   api silent (Push ''/x'') (destroy page_router) =
     (Promised (Resolved False),
      (destroy page_router)\<lparr>heap := [empty_route, empty_route, empty_route\<lparr>path := ''x''\<rparr>]\<rparr>) \<and>
   current (snd (api silent (Push ''/x'') (destroy page_router))) = empty_route"
proof -
  have a: "api silent (Push ''/x'') (destroy page_router) =
     (Promised (Resolved False),
      (destroy page_router)\<lparr>heap := [empty_route, empty_route, empty_route\<lparr>path := ''x''\<rparr>]\<rparr>)"
    by (simp add: push_def changeHash_torn_down torn_down_destroy)
       (simp add: destroy_def page_router_def initial_state_def makeRoute_page_env empty_route_def)
  from after_destroy [OF torn_down_destroy allocated_destroy [OF allocated_page_router] a] a
  show ?thesis
    by (simp add: torn_down_destroy allocated_destroy allocated_page_router)
       (simp add: current_def destroy_def page_router_def initial_state_def)
qed

text \<open>
  After teardown \<open>saveScrollPosition\<close> still stores a record in the scroll table, and
  \<open>go\<close> still reaches the history.
\<close>

theorem after_destroy_counterexample:
  "scrollPositions (destroy page_router) ''x'' = None \<and>
   scrollPositions (snd (api silent (SaveScrollPosition (Some ''x'')) (destroy page_router))) ''x'' =
     Some \<lparr>winX = 0, winY = 0, timestamp = 0, sroute = ''x''\<rparr> \<and>
   trace (destroy page_router) = [] \<and>
   trace (snd (api silent (Go (- 1)) (destroy page_router))) = [HistoryGo (- 1)]"
  by (simp add: saveScrollPosition_def captureScroll_def emitScroll_silent go_def say_def
        destroy_def page_router_def initial_state_def page_env_fields)


subsection \<open>Route getters\<close>

text \<open>
  C10. \<open>currentRoute\<close>, \<open>previousRoute\<close> and \<open>getRouteState\<close> allocate a new object on
  every call and fill it with the fields of the internal one. The address they return is
  neither that of the current route nor that of the previous one, so whatever a caller
  assigns to the fields of the returned object, both internal routes keep their contents;
  a second call returns yet another object.
\<close>

theorem getters_return_fresh_copies:
  assumes "allocated s"
  shows "fst (currentRoute s) \<notin> {route s, prevRoute s} \<union> {..<length (heap s)} \<and>
         heap (snd (currentRoute s)) ! fst (currentRoute s) = current s \<and>
         current (assign (fst (currentRoute s)) r (snd (currentRoute s))) = current s \<and>
         previous (assign (fst (currentRoute s)) r (snd (currentRoute s))) = previous s \<and>
         fst (currentRoute (snd (currentRoute s))) \<noteq> fst (currentRoute s) \<and>
         fst (previousRoute s) \<notin> {route s, prevRoute s} \<union> {..<length (heap s)} \<and>
         heap (snd (previousRoute s)) ! fst (previousRoute s) = previous s \<and>
         current (assign (fst (previousRoute s)) r (snd (previousRoute s))) = current s \<and>
         previous (assign (fst (previousRoute s)) r (snd (previousRoute s))) = previous s \<and>
         fst (previousRoute (snd (previousRoute s))) \<noteq> fst (previousRoute s) \<and>
         fst (fst (getRouteState s)) \<notin> {route s, prevRoute s} \<union> {..<length (heap s)} \<and>
         snd (fst (getRouteState s)) \<notin> {route s, prevRoute s} \<union> {..<length (heap s)} \<and>
         fst (fst (getRouteState s)) \<noteq> snd (fst (getRouteState s)) \<and>
         heap (snd (getRouteState s)) ! fst (fst (getRouteState s)) = current s \<and>
         heap (snd (getRouteState s)) ! snd (fst (getRouteState s)) = previous s \<and>
         current (assign (fst (fst (getRouteState s))) r
                    (assign (snd (fst (getRouteState s))) r' (snd (getRouteState s)))) = current s \<and>
         previous (assign (fst (fst (getRouteState s))) r
                    (assign (snd (fst (getRouteState s))) r' (snd (getRouteState s)))) = previous s"
  using assms
  by (simp add: allocated_def currentRoute_def previousRoute_def getRouteState_def alloc_def
      assign_def current_def previous_def nth_append)

theorem getters_return_fresh_copies_witness:
  "allocated page_router \<and> fst (currentRoute page_router) = 2 \<and>
   current (assign 2 (empty_route\<lparr>path := ''hacked''\<rparr>) (snd (currentRoute page_router)))
     = empty_route \<and>
   heap (assign 2 (empty_route\<lparr>path := ''hacked''\<rparr>) (snd (currentRoute page_router))) ! 2
     = empty_route\<lparr>path := ''hacked''\<rparr>"
  using getters_return_fresh_copies [OF allocated_page_router, of "empty_route\<lparr>path := ''hacked''\<rparr>"]
  by (simp add: allocated_def currentRoute_def alloc_def assign_def current_def
      page_router_def initial_state_def)


subsection \<open>Callbacks that leave the router alone\<close>

lemma is_call_thrown_effects: "filter is_call (thrown_effects label c) = []"
  by (cases c) (simp_all add: thrown_effects_def is_call_def)

lemma since_say: "since s (say es s) = es"
  by (simp add: since_def say_def)

text \<open>
  When the body of a loop only adds to the trace, and adds one call per reference, the loop
  calls every reference of the array once, in order.
\<close>

lemma for_each_says:
  assumes body: "\<And>ref t. I t \<Longrightarrow> \<exists>es. body ref t = say es t \<and> filter is_call es = [mk ref]"
    and arr: "\<And>es t. array (say es t) = array t"
    and inv: "\<And>es t. I t \<Longrightarrow> I (say es t)"
    and "I s"
  shows "\<exists>es. for_each body array n k s = say es s \<and>
               filter is_call es = map mk (take n (drop k (array s)))"
  using \<open>I s\<close>
proof (induction n arbitrary: k s)
  case 0
  show ?case by (rule exI [of _ "[]"]) simp
next
  case (Suc n)
  show ?case
  proof (cases "k < length (array s)")
    case True
    from body [OF Suc.prems, of "array s ! k"] obtain es where
      es: "body (array s ! k) s = say es s" "filter is_call es = [mk (array s ! k)]"
      by blast
    from Suc.IH [OF inv [OF Suc.prems, of es], of "Suc k"] obtain ds where
      ds: "for_each body array n (Suc k) (say es s) = say ds (say es s)"
          "filter is_call ds = map mk (take n (drop (Suc k) (array (say es s))))"
      by blast
    have "take (Suc n) (drop k (array s)) = array s ! k # take n (drop (Suc k) (array s))"
      using True by (simp add: Cons_nth_drop_Suc [symmetric])
    with True es ds show ?thesis
      by (intro exI [of _ "es @ ds"]) (simp add: say_say arr)
  next
    case False
    from Suc.IH [OF Suc.prems, of "Suc k"] obtain ds where
      ds: "for_each body array n (Suc k) s = say ds s"
          "filter is_call ds = map mk (take n (drop (Suc k) (array s)))"
      by blast
    with False show ?thesis
      by (intro exI [of _ ds]) simp
  qed
qed

lemma call_status_quiet:
  assumes "quiet cb"
  shows "\<exists>es. call_status cb status ty ref t = say es t \<and>
              filter is_call es = [CallStatus ref status ty (route t) (prevRoute t)]"
proof -
  obtain c s' where r: "status_observer cb ref status ty (route t) (prevRoute t)
                     (say [CallStatus ref status ty (route t) (prevRoute t)] t) = (c, s')"
    by (cases "status_observer cb ref status ty (route t) (prevRoute t)
                     (say [CallStatus ref status ty (route t) (prevRoute t)] t)")
  with assms have s': "s' = say [CallStatus ref status ty (route t) (prevRoute t)] t"
    by (metis quiet_def snd_conv)
  show ?thesis
    by (rule exI [of _ "CallStatus ref status ty (route t) (prevRoute t)
                         # thrown_effects ''Status callback error:'' c"])
       (simp add: call_status_def r s' say_say is_call_thrown_effects is_call_def)
qed

lemma emitStatus_quiet:
  assumes "quiet cb"
  shows "\<exists>es. emitStatus cb status ty s = say es s \<and>
              filter is_call es
                = map (\<lambda>ref. CallStatus ref status ty (route s) (prevRoute s)) (statusCallbacks s)"
proof -
  have "\<exists>es. for_each (call_status cb status ty) statusCallbacks (length (statusCallbacks s)) 0 s
               = say es s \<and>
             filter is_call es
               = map (\<lambda>ref. CallStatus ref status ty (route s) (prevRoute s))
                     (take (length (statusCallbacks s)) (drop 0 (statusCallbacks s)))"
  proof (rule for_each_says [where I = "\<lambda>t::state. route t = route s \<and> prevRoute t = prevRoute s"])
    fix ref and t :: state
    assume "route t = route s \<and> prevRoute t = prevRoute s"
    with call_status_quiet [OF assms, of status ty ref t]
    show "\<exists>es. call_status cb status ty ref t = say es t \<and>
               filter is_call es = [CallStatus ref status ty (route s) (prevRoute s)]"
      by simp
  qed (simp_all add: say_def)
  then show ?thesis
    by (simp add: emitStatus_def forEach_def)
qed

lemma call_hook_quiet:
  assumes "quiet cb"
  shows "\<exists>es. call_hook cb n ref t = say es t \<and>
              filter is_call es = [CallAfter ref n (prevRoute t)]"
proof -
  obtain c s' where r: "hook cb ref n (prevRoute t) (say [CallAfter ref n (prevRoute t)] t) = (c, s')"
    by (cases "hook cb ref n (prevRoute t) (say [CallAfter ref n (prevRoute t)] t)")
  with assms have s': "s' = say [CallAfter ref n (prevRoute t)] t"
    by (metis quiet_def snd_conv)
  show ?thesis
    by (rule exI [of _ "CallAfter ref n (prevRoute t) # thrown_effects ''After hook error:'' c"])
       (simp add: call_hook_def r s' say_say is_call_thrown_effects is_call_def)
qed

lemma hooks_quiet:
  assumes "quiet cb"
  shows "\<exists>es. forEach (call_hook cb n) afterListeners s = say es s \<and>
              filter is_call es = map (\<lambda>ref. CallAfter ref n (prevRoute s)) (afterListeners s)"
proof -
  have "\<exists>es. for_each (call_hook cb n) afterListeners (length (afterListeners s)) 0 s = say es s \<and>
             filter is_call es
               = map (\<lambda>ref. CallAfter ref n (prevRoute s))
                     (take (length (afterListeners s)) (drop 0 (afterListeners s)))"
  proof (rule for_each_says [where I = "\<lambda>t::state. prevRoute t = prevRoute s"])
    fix ref and t :: state
    assume "prevRoute t = prevRoute s"
    with call_hook_quiet [OF assms, of n ref t]
    show "\<exists>es. call_hook cb n ref t = say es t \<and>
               filter is_call es = [CallAfter ref n (prevRoute s)]"
      by simp
  qed (simp_all add: say_def)
  then show ?thesis
    by (simp add: forEach_def)
qed


lemma scroll_callee_CallScroll [simp]: "scroll_callee (CallScroll ref ev) = Some ref"
  by (simp add: scroll_callee_def)

lemma call_scroll_quiet:
  assumes "quiet cb"
  shows "\<exists>ev' es. call_scroll cb ref (ev, t) = (ev', say es t) \<and>
                  filter is_call es = [CallScroll ref ev] \<and> hd es = CallScroll ref ev"
proof -
  obtain ev' c s' where r: "scroll_observer cb ref ev (say [CallScroll ref ev] t) = ((ev', c), s')"
    by (cases "scroll_observer cb ref ev (say [CallScroll ref ev] t)") auto
  with assms have s': "s' = say [CallScroll ref ev] t"
    by (metis quiet_def snd_conv)
  show ?thesis
    by (rule exI [of _ ev'],
        rule exI [of _ "CallScroll ref ev # thrown_effects ''Scroll callback error:'' c"])
       (simp add: call_scroll_def r s' say_say is_call_thrown_effects is_call_def)
qed

lemma scroll_loop_quiet:
  assumes "quiet cb"
  shows "\<exists>ev' es. for_each (call_scroll cb) (\<lambda>x. scrollCallbacks (snd x)) n k (ev, s)
                    = (ev', say es s) \<and>
                  map scroll_callee (filter is_call es)
                    = map Some (take n (drop k (scrollCallbacks s))) \<and>
                  (0 < n \<and> k < length (scrollCallbacks s)
                     \<longrightarrow> hd es = CallScroll (scrollCallbacks s ! k) ev)"
proof (induction n arbitrary: k ev s)
  case 0
  show ?case by (rule exI [of _ ev], rule exI [of _ "[]"]) simp
next
  case (Suc n)
  show ?case
  proof (cases "k < length (scrollCallbacks s)")
    case True
    from call_scroll_quiet [OF assms, of "scrollCallbacks s ! k" ev s] obtain ev1 es where
      es: "call_scroll cb (scrollCallbacks s ! k) (ev, s) = (ev1, say es s)"
          "filter is_call es = [CallScroll (scrollCallbacks s ! k) ev]"
          "hd es = CallScroll (scrollCallbacks s ! k) ev"
      by blast
    from Suc.IH [of "Suc k" ev1 "say es s"] obtain ev2 ds where
      ds: "for_each (call_scroll cb) (\<lambda>x. scrollCallbacks (snd x)) n (Suc k) (ev1, say es s)
             = (ev2, say ds (say es s))"
          "map scroll_callee (filter is_call ds)
             = map Some (take n (drop (Suc k) (scrollCallbacks (say es s))))"
      by blast
    have t: "take (Suc n) (drop k (scrollCallbacks s))
               = scrollCallbacks s ! k # take n (drop (Suc k) (scrollCallbacks s))"
      using True by (simp add: Cons_nth_drop_Suc [symmetric])
    have ne: "es \<noteq> []" using es(2) by auto
    have sc: "scrollCallbacks (say es s) = scrollCallbacks s" by (simp add: say_def)
    show ?thesis
      by (rule exI [of _ ev2], rule exI [of _ "es @ ds"])
         (use True es ds t ne sc in \<open>simp add: say_say\<close>)
  next
    case False
    from Suc.IH [of "Suc k" ev s] obtain ev2 ds where
      ds: "for_each (call_scroll cb) (\<lambda>x. scrollCallbacks (snd x)) n (Suc k) (ev, s)
             = (ev2, say ds s)"
          "map scroll_callee (filter is_call ds)
             = map Some (take n (drop (Suc k) (scrollCallbacks s)))"
      by blast
    with False show ?thesis
      by (intro exI [of _ ev2] exI [of _ ds]) simp
  qed
qed

lemma emitScroll_quiet:
  assumes "quiet cb"
  shows "\<exists>es. emitScroll cb ev s = say es s \<and>
              map scroll_callee (filter is_call es) = map Some (scrollCallbacks s) \<and>
              (scrollCallbacks s \<noteq> [] \<longrightarrow> hd es = CallScroll (hd (scrollCallbacks s)) ev)"
proof -
  from scroll_loop_quiet [OF assms, of "length (scrollCallbacks s)" 0 ev s]
  obtain ev' es where
    "for_each (call_scroll cb) (\<lambda>x. scrollCallbacks (snd x)) (length (scrollCallbacks s)) 0 (ev, s)
       = (ev', say es s)"
    "map scroll_callee (filter is_call es) = map Some (scrollCallbacks s)"
    "0 < length (scrollCallbacks s) \<longrightarrow> hd es = CallScroll (scrollCallbacks s ! 0) ev"
    by auto
  then show ?thesis
    by (intro exI [of _ es])
       (auto simp: emitScroll_def emitScroll_loop_def forEach_def hd_conv_nth)
qed



subsection \<open>Commit\<close>

lemma completeNavigation_quiet:
  assumes "quiet cb" and "\<not> destroyed s" and "n < length (heap s)"
  shows "\<exists>hs ss. completeNavigation cb n s =
    s\<lparr>heap := heap s @ [current s], prevRoute := length (heap s), route := n,
      frames := frames s @ (case scrollPositions s (path (heap s ! n)) of
                              None \<Rightarrow> [] | Some saved \<Rightarrow> [RestoreFrame saved]),
      trace := trace s @ hs
        @ (case scrollPositions s (path (heap s ! n)) of
             None \<Rightarrow> [] | Some saved \<Rightarrow> [RequestAnimationFrame])
        @ ss\<rparr> \<and>
    filter is_call hs = map (\<lambda>ref. CallAfter ref n (length (heap s))) (afterListeners s) \<and>
    filter is_call ss
      = map (\<lambda>ref. CallStatus ref (mark_complete @ '' Navigation complete'') Success n
                      (length (heap s))) (statusCallbacks s)"
proof -
  let ?s2 = "s\<lparr>heap := heap s @ [current s], prevRoute := length (heap s), route := n\<rparr>"
  from hooks_quiet [OF assms(1), of n ?s2] obtain hs where
    hs: "forEach (call_hook cb n) afterListeners ?s2 = say hs ?s2"
        "filter is_call hs = map (\<lambda>ref. CallAfter ref n (length (heap s))) (afterListeners s)"
    by auto
  let ?s4 = "restoreScroll (path (heap s ! n)) (say hs ?s2)"
  from emitStatus_quiet [OF assms(1), of "mark_complete @ '' Navigation complete''" Success ?s4]
  obtain ss where
    ss: "emitStatus cb (mark_complete @ '' Navigation complete'') Success ?s4 = say ss ?s4"
        "filter is_call ss
           = map (\<lambda>ref. CallStatus ref (mark_complete @ '' Navigation complete'') Success
                           (route ?s4) (prevRoute ?s4)) (statusCallbacks ?s4)"
    by blast
  have f4: "route ?s4 = n" "prevRoute ?s4 = length (heap s)"
    "statusCallbacks ?s4 = statusCallbacks s"
    by (simp_all add: restoreScroll_def say_def split: option.splits)
  have h3: "heap (say hs ?s2) ! n = heap s ! n"
    using assms(3) by (simp add: say_def nth_append)
  have c: "completeNavigation cb n s = say ss ?s4"
    using assms(2) by (simp add: completeNavigation_def alloc_def Let_def hs(1) h3 ss(1))
  show ?thesis
    by (rule exI [of _ hs], rule exI [of _ ss])
       (simp add: c hs(2) ss(2) f4, simp add: restoreScroll_def say_def split: option.splits)
qed




lemma quiet_silent: "quiet silent"
  by (simp add: quiet_def silent_def)





subsection \<open>Scroll capture\<close>

lemma captureScroll_stores:
  "scrollPositions (captureScroll cb p s) p =
     Some \<lparr>winX = pageXOffset (env s), winY = pageYOffset (env s),
           timestamp = clock (env s), sroute = p\<rparr>"
  by (simp add: captureScroll_def Let_def)

lemma observed_router_eq: "observed_router = page_router\<lparr>scrollCallbacks := [2]\<rparr>"
  by (simp add: observed_router_def addScrollListener_def page_router_def initial_state_def)

text \<open>
  C7. A scroll observer is registered, and \<open>saveScrollPosition\<close> is called for the path
  \<^verbatim>\<open>home\<close>. The observer is called with the capture event, sets its vertical offset to 999
  and adds a field; the event object ends up so. The record stored for \<^verbatim>\<open>home\<close> has
  the offset of the window, 0, and when that record is restored the observer receives an
  event without the field it had added.
\<close>

theorem captureScroll_drops_observer_changes:
  "trace (saveScrollPosition enriching_table (Some ''home'') observed_router) =
     [CallScroll 2 \<lparr>winX = 0, winY = 0, timestamp = 0, sroute = ''home'',
                    etype = Capture, custom = []\<rparr>] \<and>
   fst (emitScroll_loop enriching_table
          \<lparr>winX = 0, winY = 0, timestamp = 0, sroute = ''home'',
           etype = Capture, custom = []\<rparr> observed_router) =
     \<lparr>winX = 0, winY = 999, timestamp = 0, sroute = ''home'',
      etype = Capture, custom = [(''customContainerY'', 40)]\<rparr> \<and>
   scrollPositions (saveScrollPosition enriching_table (Some ''home'') observed_router) ''home'' =
     Some \<lparr>winX = 0, winY = 0, timestamp = 0, sroute = ''home''\<rparr> \<and>
   trace (next_frame enriching_table (restoreScrollPosition (Some ''home'')
            (saveScrollPosition enriching_table (Some ''home'') observed_router))) =
     [CallScroll 2 \<lparr>winX = 0, winY = 0, timestamp = 0, sroute = ''home'',
                    etype = Capture, custom = []\<rparr>,
      RequestAnimationFrame, ScrollTo 0 0,
      CallScroll 2 \<lparr>winX = 0, winY = 0, timestamp = 0, sroute = ''home'',
                    etype = Restore, custom = []\<rparr>]"
  by (simp add: observed_router_eq saveScrollPosition_def restoreScrollPosition_def
      captureScroll_def restoreScroll_def emitScroll_def emitScroll_loop_def forEach_def
      call_scroll_def say_def event_of_def next_frame_def
      run_frame_def enriching_table_def silent_def thrown_effects_def page_router_def
      initial_state_def page_env_fields)


subsection \<open>Programmatic navigation\<close>

lemma fragment_hash_samples:
  "fragment_hash ''#!/dashboard?tab=x'' = ''#!/dashboard?tab=x''"
  "fragment_hash ''#!/home'' = ''#!/home''"
  "fragment_hash ''#!/about'' = ''#!/about''"
  "fragment_hash [] = []"
  by code_simp+

lemma makeRoute_dashboard:
  "makeRoute (env_at ''#!/dashboard?tab=x'') =
     Inr \<lparr>path = ''dashboard'', query = [], params = [(''tab'', [''x''])],
          queryTyped = [], paramsTyped = [(''tab'', [JString ''x''])]\<rparr>"
proof -
  have a: "simple_search_params ''tab=x'' = [(''tab'', ''x'')]"
    by code_simp
  have b: "coerceValue ''x'' = JString ''x''"
    by code_simp
  show ?thesis
    by (simp add: makeRoute_def env_at_def page_env_def strip_marker_def part_or_empty_def
        a b simple_search_params_empty paramsToObj_def object_prototype_keys_def
        coerceParams_def)
qed

lemma makeRoute_samples:
  "makeRoute (env_at ''#!/home'') = Inr (empty_route\<lparr>path := ''home''\<rparr>)"
  "makeRoute (env_at ''#!/about'') = Inr about_route"
  "makeRoute (env_at ''#!/admin'') = Inr (empty_route\<lparr>path := ''admin''\<rparr>)"
  by (simp_all add: makeRoute_def env_at_def page_env_def strip_marker_def part_or_empty_def
      simple_search_params_empty paramsToObj_def coerceParams_def empty_route_def
      about_route_def)

lemma push_dashboard_eq:
  "push cb ''/dashboard?tab=x'' page_router =
     (Resolved True,
      page_router
        \<lparr>env := env_at ''#!/dashboard?tab=x'',
         heap := [empty_route, empty_route, empty_route\<lparr>path := ''dashboard?tab=x''\<rparr>,
                  empty_route],
         route := 2, prevRoute := 3, lastHash := ''#!/dashboard?tab=x'',
         trace := [SetHash ''#!/dashboard?tab=x'']\<rparr>)"
  unfolding push_def
  by (simp add: changeHash_def emitStatus_def forEach_def say_def alloc_def canNavigate_def
      first_rejection_def
      completeNavigation_def restoreScroll_def write_hash_def fragment_hash_samples
      starts_with_def page_router_def initial_state_def makeRoute_page_env page_env_fields
      current_def previous_def env_at_def empty_route_def Let_def)

text \<open>
  C1. On the fresh router, with no guard registered, \<^verbatim>\<open>push('/dashboard?tab=x')\<close>
  resolves to true and commits the candidate, but the path of the current route is then
  \<^verbatim>\<open>dashboard?tab=x\<close>, with the question mark in it, and its hash parameters are those
  of the address before the call (none). The hash has become \<^verbatim>\<open>#!/dashboard?tab=x\<close>,
  from which \<open>makeRoute\<close> would read the path \<^verbatim>\<open>dashboard\<close> and the parameter
  \<^verbatim>\<open>tab\<close>; the change event that follows the write does not read it, since the hash
  equals \<open>lastHash\<close>.
\<close>

theorem push_keeps_query_in_path:
  "fst (push cb ''/dashboard?tab=x'' page_router) = Resolved True \<and>
   current (snd (push cb ''/dashboard?tab=x'' page_router)) =
     \<lparr>path = ''dashboard?tab=x'', query = [], params = [], queryTyped = [], paramsTyped = []\<rparr> \<and>
   CHR ''?'' \<in> set (path (current (snd (push cb ''/dashboard?tab=x'' page_router)))) \<and>
   hash (env (snd (push cb ''/dashboard?tab=x'' page_router))) = ''#!/dashboard?tab=x'' \<and>
   makeRoute (env (snd (push cb ''/dashboard?tab=x'' page_router))) =
     Inr \<lparr>path = ''dashboard'', query = [], params = [(''tab'', [''x''])],
          queryTyped = [], paramsTyped = [(''tab'', [JString ''x''])]\<rparr> \<and>
   hashchange cb (snd (push cb ''/dashboard?tab=x'' page_router)) =
     snd (push cb ''/dashboard?tab=x'' page_router)"
  unfolding push_dashboard_eq
  by (simp add: makeRoute_dashboard current_def empty_route_def hashchange_def
      handleRouteChange_def isNativeAnchor_def starts_with_def page_router_def
      initial_state_def)
     (simp add: env_at_def)

lemma guarded_router_eq:
  "guarded_router e = page_router\<lparr>beforeListeners := [1], trace := [CallBefore 1 0 1]\<rparr>"
  by (simp add: guarded_router_def addBeforeListener_def veto_table_def silent_def
      page_router_def initial_state_def say_def empty_route_def)

lemma watched_router_eq:
  "watched_router e =
     page_router\<lparr>beforeListeners := [1], trace := [CallBefore 1 0 1], statusCallbacks := [5]\<rparr>"
  by (simp add: watched_router_def guarded_router_eq addStatusListener_def page_router_def
      initial_state_def)

text \<open>
  C2. A guard that rejects with no reason (\<^verbatim>\<open>Promise.reject()\<close>) is registered, and a
  status observer. \<^verbatim>\<open>push('/admin')\<close> then does not resolve to false: the promise it
  returns is rejected with a \<^verbatim>\<open>TypeError\<close>, raised by \<^verbatim>\<open>error.message\<close> in the
  handler of \<open>canNavigate\<close>, and the status observer is called for the loading event
  only, never with the error tag. The routes and the address are as before. With a reason
  that carries a message, the same call resolves to false and the observer receives the
  message.
\<close>

theorem push_nullish_rejection_faults:
  "fst (push (veto_table Nullish) ''/admin'' (watched_router Nullish)) = Rejected TypeError \<and>
   trace (snd (push (veto_table Nullish) ''/admin'' (watched_router Nullish))) =
     [CallBefore 1 0 1,
      CallStatus 5 (mark_navigating @ '' Navigating...'') Loading 0 1,
      CallBefore 1 2 0,
      ConsoleError ''Navigation cancelled by guard:'' Nullish] \<and>
   current (snd (push (veto_table Nullish) ''/admin'' (watched_router Nullish))) = empty_route \<and>
   hash (env (snd (push (veto_table Nullish) ''/admin'' (watched_router Nullish)))) = [] \<and>
   fst (push (veto_table (Fault ''Authentication required'')) ''/admin''
          (watched_router (Fault ''Authentication required''))) = Resolved False \<and>
   trace (snd (push (veto_table (Fault ''Authentication required'')) ''/admin''
                 (watched_router (Fault ''Authentication required'')))) =
     [CallBefore 1 0 1,
      CallStatus 5 (mark_navigating @ '' Navigating...'') Loading 0 1,
      CallBefore 1 2 0,
      ConsoleError ''Navigation cancelled by guard:'' (Fault ''Authentication required''),
      CallStatus 5 (mark_cancelled @ '' Authentication required'') Error 0 1]"
  unfolding push_def watched_router_eq
  by (simp add: changeHash_def emitStatus_def forEach_def call_status_def call_guard_def
      say_def alloc_def canNavigate_def first_rejection_def
      thrown_effects_def veto_table_def silent_def
      starts_with_def page_router_def initial_state_def makeRoute_page_env page_env_fields
      current_def previous_def empty_route_def Let_def)


subsection \<open>Cancelled navigation\<close>

lemma home_router_eq:
  "snd (push (veto_table e) ''/home'' (guarded_router e)) =
     page_router
       \<lparr>env := env_at ''#!/home'',
        heap := [empty_route, empty_route, empty_route\<lparr>path := ''home''\<rparr>, empty_route],
        route := 2, prevRoute := 3, beforeListeners := [1], lastHash := ''#!/home'',
        trace := [CallBefore 1 0 1, CallBefore 1 2 0, SetHash ''#!/home'']\<rparr>"
  unfolding push_def guarded_router_eq
  by (simp add: changeHash_def emitStatus_def forEach_def call_guard_def say_def alloc_def
      canNavigate_def first_rejection_def veto_table_def silent_def
      completeNavigation_def restoreScroll_def write_hash_def fragment_hash_samples
      starts_with_def page_router_def initial_state_def makeRoute_page_env page_env_fields
      current_def previous_def env_at_def empty_route_def Let_def)

lemma visited_router_eq:
  "visited_router e =
     page_router
       \<lparr>env := env_at ''#!/about'',
        heap := [empty_route, empty_route, empty_route\<lparr>path := ''home''\<rparr>, empty_route,
                 about_route, empty_route\<lparr>path := ''home''\<rparr>],
        route := 4, prevRoute := 5, beforeListeners := [1], lastHash := ''#!/about'',
        scrollPositions :=
          [''home'' \<mapsto> \<lparr>winX = 0, winY = 0, timestamp = 0, sroute = ''home''\<rparr>],
        trace := [CallBefore 1 0 1, CallBefore 1 2 0, SetHash ''#!/home'',
                  CallBefore 1 4 2, SetHash ''#!/about'']\<rparr>"
  unfolding visited_router_def home_router_eq
  unfolding push_def
  by (simp add: changeHash_def emitStatus_def emitScroll_def emitScroll_loop_def
      captureScroll_def forEach_def call_guard_def say_def alloc_def
      canNavigate_def first_rejection_def veto_table_def silent_def
      completeNavigation_def restoreScroll_def write_hash_def fragment_hash_samples
      starts_with_def page_router_def initial_state_def makeRoute_samples [unfolded env_at_def]
      page_env_fields
      current_def previous_def env_at_def empty_route_def about_route_def Let_def)

text \<open>
  C5. The router has a guard that vetoes the path \<^verbatim>\<open>admin\<close>; the user went to
  \<^verbatim>\<open>/home\<close> and then to \<^verbatim>\<open>/about\<close>, so that the previous route has the path
  \<^verbatim>\<open>home\<close>, and now follows a link to \<^verbatim>\<open>#!/admin\<close>. When the guard rejects with no
  reason (\<^verbatim>\<open>Promise.reject()\<close>), \<open>handleRouteChange\<close> does not roll back: no hash is
  written, the address stays at \<^verbatim>\<open>#!/admin\<close> while the current route is still
  \<^verbatim>\<open>about\<close>, and \<open>lastHash\<close> stays \<^verbatim>\<open>#!/about\<close>. When the guard rejects with a reason
  that carries a message, the hash and \<open>lastHash\<close> are both set to \<^verbatim>\<open>#!/home\<close>, the path
  of the previous route, and the change event of that write starts no cycle.
\<close>

theorem handleRouteChange_nullish_rejection_no_rollback:
  "path (previous (visited_router Nullish)) = ''home'' \<and>
   path (current (visited_router Nullish)) = ''about'' \<and>
   lastHash (visited_router Nullish) = ''#!/about'' \<and>
   hash (env (user_goes_to (veto_table Nullish) ''#!/admin'' (visited_router Nullish))) =
     ''#!/admin'' \<and>
   lastHash (user_goes_to (veto_table Nullish) ''#!/admin'' (visited_router Nullish)) =
     ''#!/about'' \<and>
   path (current (user_goes_to (veto_table Nullish) ''#!/admin'' (visited_router Nullish))) =
     ''about'' \<and>
   since (visited_router Nullish)
     (user_goes_to (veto_table Nullish) ''#!/admin'' (visited_router Nullish)) =
     [CallBefore 1 6 4, ConsoleError ''Navigation cancelled by guard:'' Nullish] \<and>
   hash (env (user_goes_to (veto_table (Fault ''Authentication required'')) ''#!/admin''
                (visited_router (Fault ''Authentication required'')))) = ''#!/home'' \<and>
   lastHash (user_goes_to (veto_table (Fault ''Authentication required'')) ''#!/admin''
               (visited_router (Fault ''Authentication required''))) = ''#!/home'' \<and>
   since (visited_router (Fault ''Authentication required''))
     (user_goes_to (veto_table (Fault ''Authentication required'')) ''#!/admin''
        (visited_router (Fault ''Authentication required''))) =
     [CallBefore 1 6 4,
      ConsoleError ''Navigation cancelled by guard:'' (Fault ''Authentication required''),
      SetHash ''#!/home''] \<and>
   hashchange (veto_table (Fault ''Authentication required''))
     (user_goes_to (veto_table (Fault ''Authentication required'')) ''#!/admin''
        (visited_router (Fault ''Authentication required''))) =
     user_goes_to (veto_table (Fault ''Authentication required'')) ''#!/admin''
       (visited_router (Fault ''Authentication required''))"
  unfolding visited_router_eq user_goes_to_def hashchange_def
  by (simp add: handleRouteChange_def isNativeAnchor_def getElementById_def
      emitStatus_def emitScroll_def emitScroll_loop_def since_def
      captureScroll_def forEach_def call_guard_def say_def alloc_def
      canNavigate_def first_rejection_def veto_table_def silent_def
      write_hash_def fragment_hash_samples
      starts_with_def page_router_def initial_state_def makeRoute_samples [unfolded env_at_def]
      page_env_fields
      current_def previous_def env_at_def empty_route_def about_route_def Let_def)


subsection \<open>The route variables stay valid\<close>

text \<open>
  Both route variables point at allocated objects when the router is created, and every
  operation keeps it so and loses no object, whatever the callbacks do through the
  interface in the meantime.
\<close>

lemma sound_say: "sound L s \<Longrightarrow> sound L (say es s)"
  by (simp add: say_def sound_def allocated_def)

lemma sound_weaken: "sound L s \<Longrightarrow> K \<le> L \<Longrightarrow> sound K s"
  by (simp add: sound_def)

lemma sound_callback:
  assumes "keeps t t'" and "sound L t"
  shows "sound L t'"
  using assms by (auto simp: keeps_def sound_def)

lemma sound_call_status:
  assumes "well_behaved cb" and "sound L s"
  shows "sound L (call_status cb m ty ref s)"
proof -
  let ?t = "say [CallStatus ref m ty (route s) (prevRoute s)] s"
  have "keeps ?t (snd (status_observer cb ref m ty (route s) (prevRoute s) ?t))"
    using assms(1) by (simp add: well_behaved_def)
  from sound_callback [OF this sound_say [OF assms(2)]] show ?thesis
    by (simp add: call_status_def split_beta Let_def sound_say)
qed

lemma sound_emitStatus:
  assumes "well_behaved cb" and "sound L s"
  shows "sound L (emitStatus cb m ty s)"
  unfolding emitStatus_def
  by (rule forEach_invariant [where I = "sound L"])
     (rule sound_call_status [OF assms(1)], assumption, rule assms(2))

lemma sound_call_scroll:
  assumes "well_behaved cb" and "sound L (snd x)"
  shows "sound L (snd (call_scroll cb ref x))"
proof -
  let ?t = "say [CallScroll ref (fst x)] (snd x)"
  have "keeps ?t (snd (scroll_observer cb ref (fst x) ?t))"
    using assms(1) by (simp add: well_behaved_def)
  from sound_callback [OF this sound_say [OF assms(2)]] show ?thesis
    by (simp add: call_scroll_def split_beta Let_def sound_say)
qed

lemma sound_emitScroll:
  assumes "well_behaved cb" and "sound L s"
  shows "sound L (emitScroll cb ev s)"
  unfolding emitScroll_def emitScroll_loop_def
  by (rule forEach_invariant [where I = "\<lambda>x. sound L (snd x)"])
     (rule sound_call_scroll [OF assms(1)], assumption, simp add: assms(2))

lemma sound_captureScroll:
  assumes "well_behaved cb" and "sound L s"
  shows "sound L (captureScroll cb p s)"
  using sound_emitScroll [OF assms]
  by (simp add: captureScroll_def Let_def sound_def allocated_def)

lemma sound_restoreScroll: "sound L s \<Longrightarrow> sound L (restoreScroll p s)"
  by (simp add: restoreScroll_def say_def sound_def allocated_def split: option.splits)

lemma sound_call_guard:
  assumes "well_behaved cb" and "sound L (snd x)"
  shows "sound L (snd (call_guard cb n ref x))"
proof -
  let ?t = "say [CallBefore ref n (route (snd x))] (snd x)"
  have "keeps ?t (snd (guard cb ref n (route (snd x)) ?t))"
    using assms(1) by (simp add: well_behaved_def)
  from sound_callback [OF this sound_say [OF assms(2)]] show ?thesis
    by (simp add: call_guard_def split_beta Let_def)
qed

lemma sound_guards:
  assumes "well_behaved cb" and "sound L s"
  shows "sound L (snd (forEach (call_guard cb n) (\<lambda>x. beforeListeners (snd x)) (rs, s)))"
  by (rule forEach_invariant [where I = "\<lambda>x. sound L (snd x)"])
     (rule sound_call_guard [OF assms(1)], assumption, simp add: assms(2))

lemma sound_canNavigate:
  assumes "well_behaved cb" and "sound L s"
  shows "sound L (snd (canNavigate cb n s))"
  using assms
  by (auto simp: canNavigate_def split_beta Let_def split: option.splits thrown.splits
      intro!: sound_emitStatus sound_say sound_guards sound_captureScroll)

lemma sound_call_hook:
  assumes "well_behaved cb" and "sound L s"
  shows "sound L (call_hook cb n ref s)"
proof -
  let ?t = "say [CallAfter ref n (prevRoute s)] s"
  have "keeps ?t (snd (hook cb ref n (prevRoute s) ?t))"
    using assms(1) by (simp add: well_behaved_def)
  from sound_callback [OF this sound_say [OF assms(2)]] show ?thesis
    by (simp add: call_hook_def split_beta Let_def sound_say)
qed

lemma sound_hooks:
  assumes "well_behaved cb" and "sound L s"
  shows "sound L (forEach (call_hook cb n) afterListeners s)"
  by (rule forEach_invariant [where I = "sound L"])
     (rule sound_call_hook [OF assms(1)], assumption, rule assms(2))

lemma sound_completeNavigation:
  assumes "well_behaved cb" and "sound L s" and "n < length (heap s)"
  shows "sound L (completeNavigation cb n s)"
proof -
  have "sound L (s\<lparr>heap := heap s @ [current s], prevRoute := length (heap s), route := n\<rparr>)"
    using assms(2,3) by (simp add: sound_def allocated_def)
  then show ?thesis
    using assms
    by (auto simp: completeNavigation_def alloc_def Let_def
        intro!: sound_emitStatus sound_restoreScroll sound_hooks)
qed

lemma sound_write:
  "sound L s \<Longrightarrow> sound L (write_hash v s)"
  "sound L s \<Longrightarrow> sound L (location_replace u s)"
  "sound L s \<Longrightarrow> sound L (s\<lparr>lastHash := l\<rparr>)"
  by (simp_all add: write_hash_def location_replace_def say_def sound_def allocated_def)

lemma sound_alloc: "sound L s \<Longrightarrow> sound (Suc (length (heap s))) (s\<lparr>heap := heap s @ [r]\<rparr>)"
  by (simp add: sound_def allocated_def)

lemma sound_commit:
  assumes "well_behaved cb" and "sound (Suc n) s"
  shows "sound (Suc n) (completeNavigation cb n s)"
proof -
  have "n < length (heap s)"
    using assms(2) by (simp add: sound_def)
  with assms show ?thesis
    by (rule sound_completeNavigation)
qed

lemma sound_changeHash:
  assumes "well_behaved cb" and "sound L s"
  shows "sound L (snd (changeHash cb p rep s))"
proof -
  define s1 where "s1 = emitStatus cb (mark_navigating @ '' Navigating...'') Loading s"
  have a1: "sound L s1"
    unfolding s1_def by (rule sound_emitStatus [OF assms])
  show ?thesis
  proof (cases "makeRoute (env s1)")
    case (Inl x)
    then show ?thesis
      using a1 by (simp add: changeHash_def s1_def [symmetric] Let_def)
  next
    case (Inr r)
    have "sound (Suc (length (heap s1))) (snd (changeHash cb p rep s))"
      using Inr assms(1) sound_alloc [OF a1]
      by (auto simp: changeHash_def s1_def [symmetric] alloc_def split_beta Let_def
          split: promise.splits bool.splits
          intro!: sound_commit sound_write sound_canNavigate)
    moreover have "L \<le> Suc (length (heap s1))"
      using a1 by (simp add: sound_def)
    ultimately show ?thesis
      by (rule sound_weaken)
  qed
qed

lemma sound_handleRouteChange:
  assumes "well_behaved cb" and "sound L s"
  shows "sound L (handleRouteChange cb s)"
proof -
  consider (idle) "destroyed s \<or> isNativeAnchor (env s) (hash (env s)) \<or> hash (env s) = lastHash s"
    | (cycle) "\<not> destroyed s" "\<not> isNativeAnchor (env s) (hash (env s))" "hash (env s) \<noteq> lastHash s"
    by blast
  then show ?thesis
  proof cases
    case idle
    then show ?thesis
      using assms(2) by (auto simp: handleRouteChange_def say_def sound_def allocated_def)
  next
    case cycle
    define s1 where "s1 = emitStatus cb (mark_navigating @ '' Navigating...'') Loading s"
    have a1: "sound L s1"
      unfolding s1_def by (rule sound_emitStatus [OF assms])
    show ?thesis
    proof (cases "makeRoute (env s1)")
      case (Inl x)
      then show ?thesis
        using a1 cycle by (simp add: handleRouteChange_def s1_def [symmetric] Let_def)
    next
      case (Inr r)
      have "sound (Suc (length (heap s1))) (handleRouteChange cb s)"
        using Inr cycle assms(1) sound_alloc [OF a1]
        by (auto simp: handleRouteChange_def s1_def [symmetric] alloc_def split_beta Let_def
            split: promise.splits bool.splits
            intro!: sound_commit sound_write sound_canNavigate)
      moreover have "L \<le> Suc (length (heap s1))"
        using a1 by (simp add: sound_def)
      ultimately show ?thesis
        by (rule sound_weaken)
    qed
  qed
qed

lemma sound_allocated: "allocated s = sound 0 s"
  by (simp add: sound_def)

lemma allocated_events:
  assumes "well_behaved cb" and "allocated s"
  shows "allocated (hashchange cb s)" "allocated (scroll cb s)" "allocated (next_frame cb s)"
proof -
  have a: "sound 0 s"
    using assms(2) by (simp add: sound_def)
  show "allocated (hashchange cb s)"
    using sound_handleRouteChange [OF assms(1) a] a
    by (simp add: hashchange_def sound_allocated)
  show "allocated (scroll cb s)"
    using sound_emitScroll [OF assms(1) a] a
    by (simp add: scroll_def updateScrollTracking_def sound_allocated)
  have f: "sound 0 (run_frame cb f t)" if "sound 0 t" for f t
    using that assms(1)
    by (cases f) (auto simp: run_frame_def intro!: sound_emitScroll sound_say)
  have "sound 0 (s\<lparr>frames := fs\<rparr>)" for fs
    using a by (simp add: sound_def allocated_def)
  then show "allocated (next_frame cb s)"
    using a by (auto simp: next_frame_def sound_allocated split: list.splits intro!: f)
qed

lemma allocated_api:
  assumes "well_behaved cb" and "allocated s"
  shows "allocated (snd (api cb c s))"
proof -
  have a: "sound 0 s"
    using assms(2) by (simp add: sound_def)
  show ?thesis
  proof (cases c)
    case (BeforeEach g)
    show ?thesis
    proof (cases g)
      case None
      then show ?thesis
        using BeforeEach assms(2) by (simp add: addBeforeListener_def)
    next
      case (Some ref)
      let ?t = "say [CallBefore ref (route s) (prevRoute s)]
                  (s\<lparr>beforeListeners := beforeListeners s @ [ref]\<rparr>)"
      have "keeps ?t (snd (guard cb ref (route s) (prevRoute s) ?t))"
        using assms(1) by (simp add: well_behaved_def)
      moreover have "sound 0 ?t"
        using assms(2) by (simp add: say_def sound_def allocated_def)
      ultimately have "sound 0 (snd (guard cb ref (route s) (prevRoute s) ?t))"
        by (rule sound_callback)
      then show ?thesis
        using BeforeEach Some assms(2)
        by (simp add: addBeforeListener_def split_beta Let_def sound_allocated
            split: settlement.splits)
    qed
  next
    case (Push p)
    then show ?thesis
      using sound_changeHash [OF assms(1) a] by (simp add: push_def split_beta sound_allocated)
  next
    case (Replace p)
    then show ?thesis
      using sound_changeHash [OF assms(1) a] by (simp add: replace_def split_beta sound_allocated)
  next
    case (SaveScrollPosition p)
    then show ?thesis
      using sound_captureScroll [OF assms(1) a]
      by (simp add: saveScrollPosition_def sound_allocated)
  next
    case (Dispose d)
    then show ?thesis
      using assms(2) by (cases d) (simp_all add: dispose_def allocated_def)
  qed (use assms(2) in \<open>simp_all add: addAfterListener_def addStatusListener_def
        addScrollListener_def currentRoute_def previousRoute_def getRouteState_def alloc_def
        restoreScrollPosition_def restoreScroll_def clearScrollHistory_def go_def
        history_back_def forward_def destroy_def say_def allocated_def split_beta Let_def
        split: option.splits\<close>)
qed

lemma allocated_create:
  assumes "well_behaved cb" and "create cb e = Inr s"
  shows "allocated s"
proof -
  obtain r where r: "makeRoute e = Inr r" and s: "s = handleRouteChange cb (initial_state e r)"
    using assms(2) by (auto simp: create_def split: sum.splits)
  have "sound 0 (initial_state e r)"
    by (simp add: initial_state_def sound_def allocated_def)
  from sound_handleRouteChange [OF assms(1) this] show ?thesis
    by (simp add: s sound_allocated)
qed

lemma well_behaved_quiet: "quiet cb \<Longrightarrow> well_behaved cb"
  by (simp add: quiet_def well_behaved_def keeps_def)


subsection \<open>The address as the browser reads it back\<close>

lemma fragment_hash_encoded:
  "fragment_hash ''#!/my page'' = ''#!/my%20page''"
  "fragment_hash ''#!/my%20page'' = ''#!/my%20page''"
  by code_simp+

lemma makeRoute_encoded:
  "makeRoute (page_env\<lparr>hash := ''#!/my%20page''\<rparr>) = Inr (empty_route\<lparr>path := ''my%20page''\<rparr>)"
  "makeRoute (page_env\<lparr>hash := ''#!/admin''\<rparr>) = Inr (empty_route\<lparr>path := ''admin''\<rparr>)"
  by (simp_all add: makeRoute_def page_env_def strip_marker_def part_or_empty_def
      simple_search_params_empty paramsToObj_def coerceParams_def empty_route_def)

lemma pushed_encoded_eq:
  "snd (push (veto_table e) ''/my page'' (guarded_router e)) =
     page_router
       \<lparr>env := env_at ''#!/my%20page'',
        heap := [empty_route, empty_route, empty_route\<lparr>path := ''my page''\<rparr>, empty_route],
        route := 2, prevRoute := 3, beforeListeners := [1], lastHash := ''#!/my page'',
        trace := [CallBefore 1 0 1, CallBefore 1 2 0, SetHash ''#!/my page'']\<rparr>"
  unfolding push_def guarded_router_eq
  by (simp add: changeHash_def emitStatus_def forEach_def call_guard_def say_def alloc_def
      canNavigate_def first_rejection_def veto_table_def silent_def
      completeNavigation_def restoreScroll_def write_hash_def fragment_hash_encoded
      starts_with_def page_router_def initial_state_def makeRoute_page_env page_env_fields
      current_def previous_def env_at_def empty_route_def Let_def)

lemma encoded_router_eq:
  "encoded_router e =
     page_router
       \<lparr>env := env_at ''#!/my%20page'',
        heap := [empty_route, empty_route, empty_route\<lparr>path := ''my page''\<rparr>, empty_route,
                 empty_route\<lparr>path := ''my%20page''\<rparr>, empty_route\<lparr>path := ''my page''\<rparr>],
        route := 4, prevRoute := 5, beforeListeners := [1], lastHash := ''#!/my%20page'',
        scrollPositions :=
          [''my page'' \<mapsto> \<lparr>winX = 0, winY = 0, timestamp = 0, sroute = ''my page''\<rparr>],
        trace := [CallBefore 1 0 1, CallBefore 1 2 0, SetHash ''#!/my page'',
                  CallBefore 1 4 2]\<rparr>"
  unfolding encoded_router_def pushed_encoded_eq
  unfolding hashchange_def
  by (simp add: handleRouteChange_def isNativeAnchor_def getElementById_def
      emitStatus_def emitScroll_def emitScroll_loop_def
      captureScroll_def forEach_def call_guard_def say_def alloc_def
      canNavigate_def first_rejection_def veto_table_def silent_def
      completeNavigation_def restoreScroll_def
      starts_with_def page_router_def initial_state_def makeRoute_encoded
      page_env_fields
      current_def previous_def env_at_def empty_route_def Let_def)

text \<open>
  The hash setter percent-encodes, so a rollback to a previous path with a space in it
  leaves \<open>lastHash\<close> different from the hash the browser reports, and the change event of
  the rollback write starts a cycle of its own: the guard is called again, and the encoded
  address is committed.
\<close>

lemma rollback_to_encoded_path_restarts:
  "path (previous (encoded_router (Fault ''Authentication required''))) = ''my page'' \<and>
   hash (env (user_goes_to (veto_table (Fault ''Authentication required'')) ''#!/admin''
                (encoded_router (Fault ''Authentication required'')))) = ''#!/my%20page'' \<and>
   lastHash (user_goes_to (veto_table (Fault ''Authentication required'')) ''#!/admin''
               (encoded_router (Fault ''Authentication required''))) = ''#!/my page'' \<and>
   since (user_goes_to (veto_table (Fault ''Authentication required'')) ''#!/admin''
            (encoded_router (Fault ''Authentication required'')))
     (hashchange (veto_table (Fault ''Authentication required''))
        (user_goes_to (veto_table (Fault ''Authentication required'')) ''#!/admin''
           (encoded_router (Fault ''Authentication required'')))) =
     [CallBefore 1 7 4, RequestAnimationFrame]"
  unfolding encoded_router_eq user_goes_to_def hashchange_def
  by (simp add: handleRouteChange_def isNativeAnchor_def getElementById_def
      emitStatus_def emitScroll_def emitScroll_loop_def since_def
      captureScroll_def forEach_def call_guard_def say_def alloc_def
      canNavigate_def first_rejection_def veto_table_def silent_def
      completeNavigation_def restoreScroll_def
      write_hash_def fragment_hash_encoded
      starts_with_def page_router_def initial_state_def makeRoute_encoded
      page_env_fields
      current_def previous_def env_at_def empty_route_def Let_def)


subsection \<open>The guard phase\<close>

text \<open>
  \<^verbatim>\<open>Promise.all\<close> rejects with the reason of the wrapper that is rejected first: a guard
  that throws at once comes before a guard, even an earlier one, that returns a rejected
  promise, and of the promises the one that rejects first wins.
\<close>

lemma first_rejection_order:
  "first_rejection [Rejects 0 (Fault ''a''), ThrowsSync (Fault ''b'')] = Some (Fault ''b'')"
  "first_rejection [Rejects 3 (Fault ''a''), Hangs, Rejects 1 (Fault ''b''), Rejects 1 (Fault ''c'')]
     = Some (Fault ''b'')"
  "first_rejection [Fulfils, Hangs] = None"
  by (simp_all add: first_rejection_def)

lemma undisturbed_refl: "undisturbed s s"
  by (simp add: undisturbed_def)

lemma undisturbed_say: "undisturbed s t \<Longrightarrow> undisturbed s (say es t)"
  by (simp add: undisturbed_def say_def)

lemma undisturbed_call_status:
  assumes "quiet cb" and "undisturbed s t"
  shows "undisturbed s (call_status cb m ty ref t)"
  using call_status_quiet [OF assms(1), of m ty ref t] undisturbed_say [OF assms(2)]
  by auto

lemma undisturbed_emitStatus:
  assumes "quiet cb" and "undisturbed s t"
  shows "undisturbed s (emitStatus cb m ty t)"
  unfolding emitStatus_def
  by (rule forEach_invariant [where I = "undisturbed s"])
     (rule undisturbed_call_status [OF assms(1)], assumption, rule assms(2))

lemma undisturbed_emitScroll:
  assumes "quiet cb" and "undisturbed s t"
  shows "undisturbed s (emitScroll cb ev t)"
  using emitScroll_quiet [OF assms(1), of ev t] undisturbed_say [OF assms(2)]
  by auto

lemma undisturbed_captureScroll:
  assumes "quiet cb" and "undisturbed s t"
  shows "undisturbed s (captureScroll cb p t)"
  using undisturbed_emitScroll [OF assms]
  by (simp add: captureScroll_def Let_def undisturbed_def)

lemma undisturbed_call_guard:
  assumes "quiet cb" and "undisturbed s (snd x)"
  shows "undisturbed s (snd (call_guard cb n ref x))"
proof -
  let ?t = "say [CallBefore ref n (route (snd x))] (snd x)"
  have "snd (guard cb ref n (route (snd x)) ?t) = ?t"
    using assms(1) by (simp add: quiet_def)
  then show ?thesis
    using undisturbed_say [OF assms(2)] by (simp add: call_guard_def split_beta Let_def)
qed

lemma undisturbed_guards:
  assumes "quiet cb" and "undisturbed s t"
  shows "undisturbed s (snd (forEach (call_guard cb n) (\<lambda>x. beforeListeners (snd x)) (rs, t)))"
  by (rule forEach_invariant [where I = "\<lambda>x. undisturbed s (snd x)"])
     (rule undisturbed_call_guard [OF assms(1)], assumption, simp add: assms(2))

lemma undisturbed_canNavigate:
  assumes "quiet cb" and "undisturbed s t"
  shows "undisturbed s (snd (canNavigate cb n t))"
  using assms
  by (auto simp: canNavigate_def split_beta Let_def split: option.splits thrown.splits
      intro!: undisturbed_emitStatus undisturbed_say undisturbed_guards
              undisturbed_captureScroll)

text \<open>
  The outcome of the guard phase on a live router, from what the guards returned: true
  when none failed and all settled, false when the first to fail did so with a value that
  carries a message, a fault when it did so with \<^verbatim>\<open>null\<close> or \<^verbatim>\<open>undefined\<close>.
\<close>

lemma canNavigate_result:
  assumes "\<not> destroyed s"
  shows "fst (canNavigate cb n s) =
           (case first_rejection
                   (fst (forEach (call_guard cb n) (\<lambda>x. beforeListeners (snd x))
                           ([], if path (current s) \<noteq> []
                                then captureScroll cb (path (current s)) s else s))) of
              None \<Rightarrow>
                if Hangs \<in> set (fst (forEach (call_guard cb n) (\<lambda>x. beforeListeners (snd x))
                                       ([], if path (current s) \<noteq> []
                                            then captureScroll cb (path (current s)) s else s)))
                then Pending else Resolved True
            | Some Nullish \<Rightarrow> Rejected TypeError
            | Some (Fault m) \<Rightarrow> Resolved False)"
  using assms
  by (simp add: canNavigate_def split_beta Let_def split: option.splits thrown.splits)

subsection \<open>What a navigation commits\<close>

text \<open>
  With callbacks that leave the router alone: when \<open>changeHash\<close> resolves to true, the
  candidate (the route of the address before the call, with the path replaced by the
  argument without its leading slashes) is the current route, the route that was current
  is the previous one, and \<open>lastHash\<close> is the hash that was written. When it does not
  resolve to true, nothing is committed and the address is not written.
\<close>

lemma changeHash_commits:
  assumes "quiet cb" and "allocated s" and "makeRoute (env s) = Inr r"
    and "fst (changeHash cb p rep s) = Resolved True"
  shows "current (snd (changeHash cb p rep s)) = r\<lparr>path := dropWhile (\<lambda>c. c = CHR ''/'') p\<rparr> \<and>
         previous (snd (changeHash cb p rep s)) = current s \<and>
         lastHash (snd (changeHash cb p rep s)) =
           (if starts_with ''#'' p then p else ''#!/'' @ dropWhile (\<lambda>c. c = CHR ''/'') p)"
proof -
  let ?r = "r\<lparr>path := dropWhile (\<lambda>c. c = CHR ''/'') p\<rparr>"
  let ?safe = "if starts_with ''#'' p then p else ''#!/'' @ dropWhile (\<lambda>c. c = CHR ''/'') p"
  define s1 where "s1 = emitStatus cb (mark_navigating @ '' Navigating...'') Loading s"
  define s2 where "s2 = s1\<lparr>heap := heap s1 @ [?r]\<rparr>"
  define s3 where "s3 = snd (canNavigate cb (length (heap s1)) s2)"
  define s4 where "s4 = (if rep
      then location_replace (takeWhile (\<lambda>c. c \<noteq> CHR ''#'') (href (env s3)) @ ?safe) s3
      else write_hash ?safe s3)\<lparr>lastHash := ?safe\<rparr>"
  have u1: "undisturbed s s1"
    unfolding s1_def by (rule undisturbed_emitStatus [OF assms(1) undisturbed_refl])
  then have m: "makeRoute (env s1) = Inr r"
    using assms(3) by (simp add: undisturbed_def)
  have u3: "undisturbed s2 s3"
    unfolding s3_def by (rule undisturbed_canNavigate [OF assms(1) undisturbed_refl])
  have t: "fst (canNavigate cb (length (heap s1)) s2) = Resolved True"
    using assms(4) m
    by (simp add: changeHash_def s1_def [symmetric] alloc_def s2_def [symmetric] split_beta
        Let_def split: promise.splits bool.splits)
  have c: "changeHash cb p rep s = (Resolved True, completeNavigation cb (length (heap s1)) s4)"
    using m t
    by (simp add: changeHash_def s1_def [symmetric] alloc_def s2_def [symmetric] split_beta
        Let_def s3_def [symmetric] s4_def)
  have d: "\<not> destroyed s2"
    using t by (auto simp: canNavigate_def)
  have h4: "heap s4 = heap s @ [?r]" "route s4 = route s" "\<not> destroyed s4" "lastHash s4 = ?safe"
    using u1 u3 d
    by (simp_all add: s4_def s2_def undisturbed_def write_hash_def location_replace_def say_def)
  have n: "length (heap s1) < length (heap s4)" "length (heap s1) = length (heap s)"
    using u1 h4(1) by (simp_all add: undisturbed_def)
  have c4: "current s4 = current s" "heap s4 ! length (heap s1) = ?r"
    using h4 n assms(2) by (simp_all add: current_def allocated_def nth_append)
  obtain hs ss where k: "completeNavigation cb (length (heap s1)) s4 =
    s4\<lparr>heap := heap s4 @ [current s4], prevRoute := length (heap s4), route := length (heap s1),
      frames := frames s4 @ (case scrollPositions s4 (path (heap s4 ! length (heap s1))) of
                              None \<Rightarrow> [] | Some saved \<Rightarrow> [RestoreFrame saved]),
      trace := trace s4 @ hs
        @ (case scrollPositions s4 (path (heap s4 ! length (heap s1))) of
             None \<Rightarrow> [] | Some saved \<Rightarrow> [RequestAnimationFrame])
        @ ss\<rparr>"
    using completeNavigation_quiet [OF assms(1) h4(3) n(1)] by blast
  show ?thesis
    unfolding c snd_conv k
    using c4 h4(4) n by (simp add: current_def previous_def nth_append)
qed

lemma changeHash_vetoed:
  assumes "quiet cb" and "allocated s" and "fst (changeHash cb p rep s) \<noteq> Resolved True"
  shows "route (snd (changeHash cb p rep s)) = route s \<and>
         prevRoute (snd (changeHash cb p rep s)) = prevRoute s \<and>
         current (snd (changeHash cb p rep s)) = current s \<and>
         previous (snd (changeHash cb p rep s)) = previous s \<and>
         env (snd (changeHash cb p rep s)) = env s \<and>
         lastHash (snd (changeHash cb p rep s)) = lastHash s"
proof -
  define s1 where "s1 = emitStatus cb (mark_navigating @ '' Navigating...'') Loading s"
  have u1: "undisturbed s s1"
    unfolding s1_def by (rule undisturbed_emitStatus [OF assms(1) undisturbed_refl])
  show ?thesis
  proof (cases "makeRoute (env s1)")
    case (Inl x)
    then show ?thesis
      using u1
      by (simp add: changeHash_def s1_def [symmetric] Let_def undisturbed_def current_def
          previous_def)
  next
    case (Inr r)
    define s2 where "s2 = s1\<lparr>heap := heap s1 @ [r\<lparr>path := dropWhile (\<lambda>c. c = CHR ''/'') p\<rparr>]\<rparr>"
    define s3 where "s3 = snd (canNavigate cb (length (heap s1)) s2)"
    have u3: "undisturbed s2 s3"
      unfolding s3_def by (rule undisturbed_canNavigate [OF assms(1) undisturbed_refl])
    have c: "snd (changeHash cb p rep s) = s3"
      using Inr assms(3)
      by (simp add: changeHash_def s1_def [symmetric] alloc_def s2_def [symmetric] split_beta
          Let_def s3_def [symmetric] split: promise.splits bool.splits)
    show ?thesis
      unfolding c using u1 u3 assms(2)
      by (simp add: s2_def undisturbed_def current_def previous_def allocated_def nth_append)
  qed
qed

subsection \<open>Rollback\<close>

text \<open>
  When the guard phase of a change cycle resolves to false, the hash is written to
  \<^verbatim>\<open>#!/\<close> followed by the path of the previous route, or to the empty string when that
  path is empty, and \<open>lastHash\<close> is set to the string that was written; the hash then reads
  as the browser encodes that string. When the two are equal, the change event of the
  write leaves the router as it is.
\<close>

lemma handleRouteChange_vetoed:
  assumes "\<not> destroyed s"
    and "\<not> isNativeAnchor (env s) (hash (env s))"
    and "hash (env s) \<noteq> lastHash s"
    and "makeRoute (env (emitStatus cb (mark_navigating @ '' Navigating...'') Loading s)) = Inr r"
    and "canNavigate cb (length (heap (emitStatus cb (mark_navigating @ '' Navigating...'') Loading s)))
           (snd (alloc r (emitStatus cb (mark_navigating @ '' Navigating...'') Loading s)))
         = (Resolved False, s3)"
  shows "handleRouteChange cb s =
           (write_hash (if path (previous s3) \<noteq> [] then ''#!/'' @ path (previous s3) else []) s3)
             \<lparr>lastHash := (if path (previous s3) \<noteq> [] then ''#!/'' @ path (previous s3) else [])\<rparr> \<and>
         hash (env (handleRouteChange cb s)) =
           fragment_hash (if path (previous s3) \<noteq> [] then ''#!/'' @ path (previous s3) else []) \<and>
         lastHash (handleRouteChange cb s) =
           (if path (previous s3) \<noteq> [] then ''#!/'' @ path (previous s3) else []) \<and>
         since s3 (handleRouteChange cb s) =
           [SetHash (if path (previous s3) \<noteq> [] then ''#!/'' @ path (previous s3) else [])] \<and>
         current (handleRouteChange cb s) = current s3 \<and>
         previous (handleRouteChange cb s) = previous s3"
proof -
  have h: "handleRouteChange cb s =
           (write_hash (if path (previous s3) \<noteq> [] then ''#!/'' @ path (previous s3) else []) s3)
             \<lparr>lastHash := (if path (previous s3) \<noteq> [] then ''#!/'' @ path (previous s3) else [])\<rparr>"
    using assms(1,2,3) assms(5) [unfolded alloc_def snd_conv]
    by (simp add: handleRouteChange_def Let_def assms(4) alloc_def)
  show ?thesis
    unfolding h
    by (simp add: write_hash_def say_def since_def current_def previous_def)
qed

lemma rollback_settles:
  assumes "fragment_hash v = v" and "v = [] \<or> starts_with ''#!/'' v"
  shows "hashchange cb ((write_hash v s)\<lparr>lastHash := v\<rparr>) = (write_hash v s)\<lparr>lastHash := v\<rparr>"
proof -
  have "\<not> isNativeAnchor e v" for e
    using assms(2) by (auto simp: isNativeAnchor_def getElementById_def)
  then show ?thesis
    using assms(1) by (simp add: hashchange_def handleRouteChange_def write_hash_def say_def)
qed


text \<open>
  The rollback reads the previous route after the guard phase. A guard that redirects
  with \<^verbatim>\<open>replace('/login')\<close> before it throws has by then committed \<^verbatim>\<open>login\<close>, so the
  previous route is the one that was current when the cycle began: the address is written
  back to \<^verbatim>\<open>#!/about\<close> while the current route is \<^verbatim>\<open>login\<close>.
\<close>

lemma url_hash_login:
  "url_hash ''http://localhost/#!/login'' = ''#!/login''"
  "takeWhile (\<lambda>c. c \<noteq> CHR ''#'') (strip_url ''http://localhost/#!/login'') = ''http://localhost/''"
  by code_simp+

lemma rollback_after_redirect:
  "path (current (visited_router Nullish)) = ''about'' \<and>
   hash (env (user_goes_to redirecting_table ''#!/admin'' (visited_router Nullish))) = ''#!/about'' \<and>
   lastHash (user_goes_to redirecting_table ''#!/admin'' (visited_router Nullish)) = ''#!/about'' \<and>
   path (current (user_goes_to redirecting_table ''#!/admin'' (visited_router Nullish))) = ''login'' \<and>
   path (previous (user_goes_to redirecting_table ''#!/admin'' (visited_router Nullish))) = ''about'' \<and>
   since (visited_router Nullish)
     (user_goes_to redirecting_table ''#!/admin'' (visited_router Nullish)) =
     [CallBefore 1 6 4, CallBefore 1 7 4, LocationReplace ''http://localhost/#!/login'',
      ConsoleError ''Navigation cancelled by guard:'' (Fault ''Authentication required''),
      SetHash ''#!/about'']"
  unfolding visited_router_eq user_goes_to_def hashchange_def
  by (simp add: handleRouteChange_def isNativeAnchor_def getElementById_def
      replace_def changeHash_def location_replace_def url_hash_login href_def
      emitStatus_def emitScroll_def emitScroll_loop_def since_def
      captureScroll_def forEach_def call_guard_def say_def alloc_def
      canNavigate_def first_rejection_def redirecting_table_def silent_def
      completeNavigation_def restoreScroll_def
      write_hash_def fragment_hash_samples
      starts_with_def page_router_def initial_state_def makeRoute_samples [unfolded env_at_def]
      page_env_fields
      current_def previous_def env_at_def empty_route_def about_route_def Let_def)

end
